theory Spec2Isabelle
  imports Main "HOL-Library.Word"
begin

section \<open>Python values used by server.py\<close>

text \<open>
  A Python \<open>str\<close> is a sequence of Unicode code points; \<open>ord\<close> reads one as a number and
  \<open>len\<close> counts them. The script detector compares code points up to \<open>0x0D7F\<close>, so a
  string is a list of natural numbers here, and string literals of the source are written
  \<open>py ''...''\<close>.
\<close>

type_synonym pystr = "nat list"

definition py :: "string \<Rightarrow> pystr" where
  "py s = map of_char s"

type_synonym bytes = "8 word list"

datatype exn = ValueError | OverflowError | FileNotFoundError | EngineError pystr

text \<open>
  \<open>str.strip()\<close> and the regular expression class \<open>\s\<close> share CPython's whitespace
  table (\<open>Py_UNICODE_ISSPACE\<close>): the code points below.
\<close>

definition is_space :: "nat \<Rightarrow> bool" where
  "is_space c \<longleftrightarrow>
     (9 \<le> c \<and> c \<le> 13) \<or> (28 \<le> c \<and> c \<le> 32) \<or> c = 133 \<or> c = 160 \<or> c = 5760 \<or>
     (8192 \<le> c \<and> c \<le> 8202) \<or> c = 8232 \<or> c = 8233 \<or> c = 8239 \<or> c = 8287 \<or> c = 12288"

definition strip :: "pystr \<Rightarrow> pystr" where
  "strip s = rev (dropWhile is_space (rev (dropWhile is_space s)))"

section \<open>Script detection\<close>

definition SCRIPT_RANGES :: "(pystr \<times> (nat \<times> nat) list) list" where
  "SCRIPT_RANGES =
    [(py ''devanagari'', [(0x0900, 0x097F)]),
     (py ''bengali'',    [(0x0980, 0x09FF)]),
     (py ''gurmukhi'',   [(0x0A00, 0x0A7F)]),
     (py ''gujarati'',   [(0x0A80, 0x0AFF)]),
     (py ''oriya'',      [(0x0B00, 0x0B7F)]),
     (py ''tamil'',      [(0x0B80, 0x0BFF)]),
     (py ''telugu'',     [(0x0C00, 0x0C7F)]),
     (py ''kannada'',    [(0x0C80, 0x0CFF)]),
     (py ''malayalam'',  [(0x0D00, 0x0D7F)]),
     (py ''latin'',      [(0x0000, 0x007F)])]"

text \<open>
  \<open>counts\<close> is a dict in insertion order, the order of \<open>SCRIPT_RANGES\<close>;
  \<open>counts[script] += 1\<close> keeps the position of the key. The keys of \<open>counts\<close> are those
  of \<open>SCRIPT_RANGES\<close>, so the lookup never misses.
\<close>

type_synonym counts = "(pystr \<times> nat) list"

definition incr :: "counts \<Rightarrow> pystr \<Rightarrow> counts" where
  "incr counts script = map (\<lambda>(s, n). (s, if s = script then n + 1 else n)) counts"

text \<open>The innermost loop: the first range holding the code point counts once, then \<open>break\<close>.\<close>

fun range_loop :: "nat \<Rightarrow> pystr \<Rightarrow> counts \<Rightarrow> (nat \<times> nat) list \<Rightarrow> counts" where
  "range_loop cp script counts [] = counts"
| "range_loop cp script counts ((start, end) # ranges) =
     (if start \<le> cp \<and> cp \<le> end then incr counts script
      else range_loop cp script counts ranges)"

fun script_loop :: "nat \<Rightarrow> counts \<Rightarrow> (pystr \<times> (nat \<times> nat) list) list \<Rightarrow> counts" where
  "script_loop cp counts [] = counts"
| "script_loop cp counts ((script, ranges) # items) =
     script_loop cp (range_loop cp script counts ranges) items"

fun text_loop :: "counts \<Rightarrow> pystr \<Rightarrow> counts" where
  "text_loop counts [] = counts"
| "text_loop counts (ch # text) = text_loop (script_loop ch counts SCRIPT_RANGES) text"

text \<open>
  \<open>max(iterable, key=...)\<close> keeps the first item and replaces it only by a strictly
  greater one; on an empty iterable it raises \<open>ValueError\<close>.
\<close>

fun max_from :: "('a \<Rightarrow> nat) \<Rightarrow> 'a \<Rightarrow> 'a list \<Rightarrow> 'a" where
  "max_from key best [] = best"
| "max_from key best (x # xs) = max_from key (if key best < key x then x else best) xs"

definition py_max :: "('a \<Rightarrow> nat) \<Rightarrow> 'a list \<Rightarrow> exn + 'a" where
  "py_max key xs = (case xs of [] \<Rightarrow> Inl ValueError | x # rest \<Rightarrow> Inr (max_from key x rest))"

text \<open>The dict \<open>counts\<close> as it stands after the scan of \<open>text\<close>.\<close>

definition script_counts :: "pystr \<Rightarrow> counts" where
  "script_counts text = text_loop (map (\<lambda>(s, _). (s, 0)) SCRIPT_RANGES) text"

definition detect_script :: "pystr \<Rightarrow> exn + pystr" where
  "detect_script text =
     (if text = [] \<or> strip text = [] then Inr (py ''unknown'')
      else
        (case py_max snd (script_counts text) of
           Inl e \<Rightarrow> Inl e
         | Inr best \<Rightarrow> Inr (if snd best > 0 then fst best else py ''unknown'')))"

text \<open>
  The counter of a script, said without the loop: the number of characters of the text
  whose code point lies in one of the ranges of the script.
\<close>

definition in_ranges :: "nat \<Rightarrow> (nat \<times> nat) list \<Rightarrow> bool" where
  "in_ranges cp ranges = list_ex (\<lambda>(start, end). start \<le> cp \<and> cp \<le> end) ranges"

definition script_count :: "pystr \<Rightarrow> pystr \<Rightarrow> nat" where
  "script_count script text =
     (case map_of SCRIPT_RANGES script of
        None \<Rightarrow> 0
      | Some ranges \<Rightarrow> length (filter (\<lambda>cp. in_ranges cp ranges) text))"

text \<open>
  The winner as the specification words it: the first script, in the order of the range
  table, whose counter no other counter exceeds.
\<close>

definition highest_count_script :: "pystr \<Rightarrow> pystr option" where
  "highest_count_script text =
     find (\<lambda>s. \<forall>t \<in> set (map fst SCRIPT_RANGES). script_count t text \<le> script_count s text)
       (map fst SCRIPT_RANGES)"

section \<open>Scheme and language tables\<close>

definition SANSCRIPT_MAP :: "(pystr \<times> pystr) list" where
  "SANSCRIPT_MAP =
    [(py ''devanagari'', py ''devanagari''),
     (py ''bengali'', py ''bengali''),
     (py ''gurmukhi'', py ''gurmukhi''),
     (py ''gujarati'', py ''gujarati''),
     (py ''oriya'', py ''oriya''),
     (py ''tamil'', py ''tamil''),
     (py ''telugu'', py ''telugu''),
     (py ''kannada'', py ''kannada''),
     (py ''malayalam'', py ''malayalam''),
     (py ''latin'', py ''itrans'')]"

definition TTS_LANG_MAP :: "(pystr \<times> pystr) list" where
  "TTS_LANG_MAP =
    [(py ''devanagari'', py ''hi''),
     (py ''bengali'', py ''bn''),
     (py ''gurmukhi'', py ''pa''),
     (py ''gujarati'', py ''gu''),
     (py ''oriya'', py ''or''),
     (py ''tamil'', py ''ta''),
     (py ''telugu'', py ''te''),
     (py ''kannada'', py ''kn''),
     (py ''malayalam'', py ''ml''),
     (py ''latin'', py ''en'')]"

text \<open>\<open>d.get(key, default)\<close>.\<close>

definition dict_get :: "('k \<times> 'v) list \<Rightarrow> 'k \<Rightarrow> 'v \<Rightarrow> 'v" where
  "dict_get d k dflt = (case map_of d k of None \<Rightarrow> dflt | Some v \<Rightarrow> v)"

section \<open>Schwa deletion\<close>

text \<open>
  \<open>\w\<close> on a \<open>str\<close> pattern is \<open>isalnum\<close> or the underscore. The ASCII part is written
  out; the alphanumeric table of the code points from 128 on belongs to the interpreter
  and is the parameter \<open>alnum\<close>.
\<close>

definition is_word :: "(nat \<Rightarrow> bool) \<Rightarrow> nat \<Rightarrow> bool" where
  "is_word alnum c =
     (if c < 128 then (48 \<le> c \<and> c \<le> 57) \<or> (65 \<le> c \<and> c \<le> 90) \<or> (97 \<le> c \<and> c \<le> 122) \<or> c = 95
      else alnum c)"

text \<open>
  \<open>\b\<close> between the character before and the character after (either may be missing, at
  the ends of the string): exactly one of the two is a word character.
\<close>

definition word_boundary :: "(nat \<Rightarrow> bool) \<Rightarrow> nat option \<Rightarrow> nat option \<Rightarrow> bool" where
  "word_boundary alnum before after =
     ((case before of None \<Rightarrow> False | Some c \<Rightarrow> is_word alnum c) \<noteq>
      (case after of None \<Rightarrow> False | Some c \<Rightarrow> is_word alnum c))"

text \<open>\<open>re.sub(r'a\b', '', s)\<close>: a left-to-right scan, every match is one character.\<close>

fun sub_a_boundary :: "(nat \<Rightarrow> bool) \<Rightarrow> pystr \<Rightarrow> pystr" where
  "sub_a_boundary alnum [] = []"
| "sub_a_boundary alnum (c # cs) =
     (if c = 0x61 \<and> word_boundary alnum (Some c) (case cs of [] \<Rightarrow> None | d # _ \<Rightarrow> Some d)
      then sub_a_boundary alnum cs
      else c # sub_a_boundary alnum cs)"

text \<open>\<open>re.sub(r'\s+', ' ', s)\<close>: every maximal run of whitespace becomes one space.\<close>

function sub_spaces :: "pystr \<Rightarrow> pystr" where
  "sub_spaces [] = []"
| "sub_spaces (c # cs) =
     (if is_space c then 0x20 # sub_spaces (dropWhile is_space cs)
      else c # sub_spaces cs)"
  by pat_completeness auto
termination
  by (relation "measure length") (auto simp: less_Suc_eq_le length_dropWhile_le)

definition schwa_delete_for_devanagari_to_latin :: "(nat \<Rightarrow> bool) \<Rightarrow> pystr \<Rightarrow> pystr" where
  "schwa_delete_for_devanagari_to_latin alnum transliterated_text =
     (if transliterated_text = [] then transliterated_text
      else strip (sub_spaces (sub_a_boundary alnum transliterated_text)))"

text \<open>
  The first step as the specification words it: drop every \<open>a\<close> that ends a word, that is,
  every \<open>a\<close> whose successor is missing or is not a word character.
\<close>

definition successors :: "pystr \<Rightarrow> nat option list" where
  "successors s = map Some (tl s) @ [None]"

definition drop_word_final_a :: "(nat \<Rightarrow> bool) \<Rightarrow> pystr \<Rightarrow> pystr" where
  "drop_word_final_a alnum s =
     map fst (filter (\<lambda>(c, nxt). \<not> (c = 0x61 \<and>
        (case nxt of None \<Rightarrow> True | Some d \<Rightarrow> \<not> is_word alnum d))) (zip s (successors s)))"

text \<open>
  The second step as the specification words it: a whitespace character that follows a
  whitespace character is dropped, and every whitespace character that stays becomes one
  space. \<open>collapse_from prev\<close> takes the character before the string as \<open>prev\<close>.
\<close>

definition collapse_from :: "nat option \<Rightarrow> pystr \<Rightarrow> pystr" where
  "collapse_from prev s =
     map (\<lambda>c. if is_space c then 0x20 else c)
       (map fst (filter (\<lambda>(c, before). \<not> (is_space c \<and>
          (case before of None \<Rightarrow> False | Some p \<Rightarrow> is_space p))) (zip s (prev # map Some s))))"

definition collapse_whitespace :: "pystr \<Rightarrow> pystr" where
  "collapse_whitespace s = collapse_from None s"

text \<open>No two neighbours of a string are both whitespace.\<close>

fun single_spaced :: "pystr \<Rightarrow> bool" where
  "single_spaced (c # d # cs) = (\<not> (is_space c \<and> is_space d) \<and> single_spaced (d # cs))"
| "single_spaced _ = True"

section \<open>The transliteration step of the request handler\<close>

text \<open>
  The engine \<open>indic_transliteration.sanscript.transliterate\<close> is an external library: a
  parameter that returns the converted text or raises. Every call is logged, so that a
  theorem can say which calls were made.
\<close>

type_synonym engine = "pystr \<Rightarrow> pystr \<Rightarrow> pystr \<Rightarrow> exn + pystr"
type_synonym call = "pystr \<times> pystr \<times> pystr"

text \<open>The body of the outer \<open>try\<close> (lines 280 to 283).\<close>

definition direct_attempt :: "engine \<Rightarrow> pystr \<Rightarrow> pystr \<Rightarrow> pystr \<Rightarrow> call list \<times> (exn + pystr)" where
  "direct_attempt transliterate extracted from_scheme to_scheme =
     (if from_scheme = to_scheme then ([], Inr extracted)
      else ([(extracted, from_scheme, to_scheme)], transliterate extracted from_scheme to_scheme))"

text \<open>The body of the inner \<open>try\<close> (lines 287 and 288).\<close>

definition two_hop_attempt :: "engine \<Rightarrow> pystr \<Rightarrow> pystr \<Rightarrow> pystr \<Rightarrow> call list \<times> (exn + pystr)" where
  "two_hop_attempt transliterate extracted from_scheme to_scheme =
     (case transliterate extracted from_scheme (py ''iast'') of
        Inl e \<Rightarrow> ([(extracted, from_scheme, py ''iast'')], Inl e)
      | Inr intermediate \<Rightarrow>
          ([(extracted, from_scheme, py ''iast''), (intermediate, py ''iast'', to_scheme)],
           transliterate intermediate (py ''iast'') to_scheme))"

text \<open>Lines 279 to 291: both \<open>except Exception\<close> handlers, the value left in \<open>transliterated\<close>.\<close>

definition transliterate_with_fallback ::
  "engine \<Rightarrow> pystr \<Rightarrow> pystr \<Rightarrow> pystr \<Rightarrow> call list \<times> pystr" where
  "transliterate_with_fallback transliterate extracted from_scheme to_scheme =
     (case direct_attempt transliterate extracted from_scheme to_scheme of
        (calls, Inr transliterated) \<Rightarrow> (calls, transliterated)
      | (calls, Inl e) \<Rightarrow>
          (case two_hop_attempt transliterate extracted from_scheme to_scheme of
             (calls2, Inr transliterated) \<Rightarrow> (calls @ calls2, transliterated)
           | (calls2, Inl e2) \<Rightarrow> (calls @ calls2, extracted)))"

text \<open>
  The fields of the JSON answer of \<open>/transliterate\<close>, without \<open>audio_url\<close>; in its place
  \<open>tts_request\<close> holds the arguments \<open>generate_tts_audio\<close> is called with, \<open>None\<close> when it
  is not called, and \<open>engine_calls\<close> the calls of the transliteration engine.
\<close>

record reply =
  original_text :: pystr
  transliterated_text :: pystr
  detected_script :: pystr
  target_script :: pystr
  langCode :: pystr
  error :: pystr
  tts_request :: "(pystr \<times> pystr) option"
  engine_calls :: "call list"

text \<open>
  \<open>transliterate_image\<close> from line 264 on: \<open>extracted\<close> is the text the OCR step returned and
  \<open>target_script\<close> the lower-cased form field (\<open>latin\<close> when absent). \<open>Inl\<close> is an
  exception that reaches the outermost handler (status 500).
\<close>

definition transliterate_image ::
  "(nat \<Rightarrow> bool) \<Rightarrow> engine \<Rightarrow> pystr \<Rightarrow> pystr \<Rightarrow> exn + reply" where
  "transliterate_image alnum transliterate extracted target =
     (if extracted = [] then
        Inr \<lparr>original_text = [], transliterated_text = [], detected_script = py ''unknown'',
             target_script = target, langCode = [], error = py ''No text found in image'',
             tts_request = None, engine_calls = []\<rparr>
      else
        (case detect_script extracted of
           Inl e \<Rightarrow> Inl e
         | Inr detected \<Rightarrow>
             (let from_scheme = dict_get SANSCRIPT_MAP detected (py ''iast'');
                  to_scheme = dict_get SANSCRIPT_MAP target (py ''itrans'');
                  (calls, transliterated0) =
                     transliterate_with_fallback transliterate extracted from_scheme to_scheme;
                  transliterated =
                    (if detected = py ''devanagari'' \<and> target = py ''latin''
                     then schwa_delete_for_devanagari_to_latin alnum transliterated0
                     else transliterated0);
                  tts_lang = dict_get TTS_LANG_MAP detected
                               (dict_get TTS_LANG_MAP target (py ''en''));
                  tts_text_for_generation =
                    (if detected \<noteq> py ''latin'' then extracted else transliterated)
              in Inr \<lparr>original_text = extracted, transliterated_text = transliterated,
                      detected_script = detected, target_script = target, langCode = tts_lang,
                      error = [],
                      tts_request = (if strip tts_text_for_generation \<noteq> []
                                     then Some (tts_text_for_generation, tts_lang) else None),
                      engine_calls = calls\<rparr>)))"

section \<open>Decimal numerals\<close>

text \<open>
  \<open>str(n)\<close> and the \<open>{n}\<close> of an f-string print an integer in decimal; \<open>int(s)\<close> reads a
  string of ASCII digits back.
\<close>

definition digit_char :: "nat \<Rightarrow> char" where
  "digit_char d = char_of (48 + d)"

function str_nat :: "nat \<Rightarrow> string" where
  "str_nat n = (if n < 10 then [digit_char n] else str_nat (n div 10) @ [digit_char (n mod 10)])"
  by pat_completeness auto
termination
  by (relation "measure id") auto

declare str_nat.simps [simp del]



definition int_of_digits :: "string \<Rightarrow> nat" where
  "int_of_digits s = foldl (\<lambda>acc c. 10 * acc + (of_char c - 48)) 0 s"


section \<open>Speech synthesis with the chunked fallback\<close>

text \<open>
  The audio folder is a map from path to content. The synthesiser \<open>gTTS\<close> is an external
  library: \<open>gTTS(text=..., lang=...)\<close> followed by \<open>save(name)\<close> is one call of the
  parameter \<open>synthesize\<close> with the text, the language and the name. The call either stores
  the audio under \<open>name\<close> (\<open>Inr\<close> the audio), or raises (\<open>Inl\<close>); a call that raises
  may have created the file already, and then leaves some content under \<open>name\<close>
  (\<open>Some\<close> of it), or leaves nothing (\<open>None\<close>).
\<close>

type_synonym fs = "pystr \<rightharpoonup> bytes"
type_synonym synth = "pystr \<Rightarrow> pystr \<Rightarrow> pystr \<Rightarrow> (exn \<times> bytes option) + bytes"

definition tts_save :: "synth \<Rightarrow> pystr \<Rightarrow> pystr \<Rightarrow> pystr \<Rightarrow> fs \<Rightarrow> (exn \<times> fs) + fs" where
  "tts_save synthesize text lang name files =
     (case synthesize text lang name of
        Inl (e, left) \<Rightarrow>
          Inl (e, case left of None \<Rightarrow> files | Some partial \<Rightarrow> files(name \<mapsto> partial))
      | Inr audio \<Rightarrow> Inr (files(name \<mapsto> audio)))"

text \<open>
  The class of the lookbehind in line 129 holds the six code points the source file has
  between the brackets: \<open>.\<close>, \<open>?\<close>, \<open>!\<close>, \<open>U+00E0\<close>, \<open>U+00A5\<close> and \<open>U+00A4\<close>.
\<close>

definition is_terminator :: "nat \<Rightarrow> bool" where
  "is_terminator c \<longleftrightarrow> c = 0x2E \<or> c = 0x3F \<or> c = 0x21 \<or> c = 0xE0 \<or> c = 0xA5 \<or> c = 0xA4"

text \<open>
  \<open>re.split\<close> with that pattern: a match starts at a whitespace character that follows a
  terminator and takes the whole run of whitespace. \<open>prev\<close> is the character before the
  position, \<open>piece\<close> the piece collected so far.
\<close>

function re_split :: "nat option \<Rightarrow> pystr \<Rightarrow> pystr \<Rightarrow> pystr list" where
  "re_split prev piece [] = [piece]"
| "re_split prev piece (c # cs) =
     (if is_space c \<and> (case prev of None \<Rightarrow> False | Some p \<Rightarrow> is_terminator p)
      then piece # re_split (Some (last (c # takeWhile is_space cs))) [] (dropWhile is_space cs)
      else re_split (Some c) (piece @ [c]) cs)"
  by pat_completeness auto
termination
  by (relation "measure (\<lambda>(prev, piece, s). length s)")
     (auto simp: less_Suc_eq_le length_dropWhile_le)

text \<open>Lines 135 to 145: the greedy re-bucketing of more than twelve pieces.\<close>

fun bucket_loop :: "pystr list \<Rightarrow> pystr \<Rightarrow> pystr list \<Rightarrow> pystr list \<times> pystr" where
  "bucket_loop joined tmp [] = (joined, tmp)"
| "bucket_loop joined tmp (p # ps) =
     (if length tmp + length p > 300 then bucket_loop (joined @ [tmp]) p ps
      else bucket_loop joined (strip (tmp @ py '' '' @ p)) ps)"

definition rebucket :: "pystr list \<Rightarrow> pystr list" where
  "rebucket pieces =
     (case bucket_loop [] [] pieces of
        (joined, tmp) \<Rightarrow> if tmp \<noteq> [] then joined @ [tmp] else joined)"

definition split_pieces :: "pystr \<Rightarrow> pystr list" where
  "split_pieces text =
     (let pieces = re_split None [] text;
          pieces = (if length pieces = 0 then [text] else pieces)
      in if length pieces > 12 then rebucket pieces else pieces)"

definition enumerate :: "'a list \<Rightarrow> (nat \<times> 'a) list" where
  "enumerate xs = zip [0..<length xs] xs"

definition tmp_name :: "pystr \<Rightarrow> nat \<Rightarrow> pystr" where
  "tmp_name out_path i = out_path @ py ''.'' @ py (str_nat i) @ py ''.mp3''"

text \<open>\<open>os.remove\<close> of each file, every failure swallowed.\<close>

fun remove_files :: "fs \<Rightarrow> pystr list \<Rightarrow> fs" where
  "remove_files files [] = files"
| "remove_files files (tf # tfs) = remove_files (files(tf := None)) tfs"

text \<open>
  Lines 148 to 166. The result is \<open>None\<close> after the early \<open>return False\<close>, else the list
  \<open>temp_files\<close>.
\<close>

fun save_loop ::
  "synth \<Rightarrow> pystr \<Rightarrow> pystr \<Rightarrow> (nat \<times> pystr) list \<Rightarrow> pystr list \<Rightarrow> fs \<Rightarrow> pystr list option \<times> fs" where
  "save_loop synthesize lang out_path [] temp_files files = (Some temp_files, files)"
| "save_loop synthesize lang out_path ((i, p) # rest) temp_files files =
     (let piece = strip p in
      if piece = [] then save_loop synthesize lang out_path rest temp_files files
      else
        (case tts_save synthesize piece lang (tmp_name out_path i) files of
           Inr files' \<Rightarrow>
             save_loop synthesize lang out_path rest (temp_files @ [tmp_name out_path i]) files'
         | Inl (e, files') \<Rightarrow> (None, remove_files files' temp_files)))"

text \<open>
  Lines 169 to 172: the bytes written to the open output file while the temporary files
  are read in turn, and the exception that ends the loop, if any.
\<close>

fun merge_loop :: "fs \<Rightarrow> bytes \<Rightarrow> pystr list \<Rightarrow> bytes \<times> exn option" where
  "merge_loop files written [] = (written, None)"
| "merge_loop files written (tf # tfs) =
     (case files tf of
        None \<Rightarrow> (written, Some FileNotFoundError)
      | Some data \<Rightarrow> merge_loop files (written @ data) tfs)"

definition safe_tts_save_chunks :: "synth \<Rightarrow> pystr \<Rightarrow> pystr \<Rightarrow> pystr \<Rightarrow> fs \<Rightarrow> bool \<times> fs" where
  "safe_tts_save_chunks synthesize text lang out_path files =
     (case save_loop synthesize lang out_path (enumerate (split_pieces text)) [] files of
        (None, files1) \<Rightarrow> (False, files1)
      | (Some temp_files, files1) \<Rightarrow>
          (case merge_loop (files1(out_path \<mapsto> [])) [] temp_files of
             (written, Some e) \<Rightarrow> (False, files1(out_path \<mapsto> written))
           | (written, None) \<Rightarrow> (True, remove_files (files1(out_path \<mapsto> written)) temp_files)))"


text \<open>
  The chunks that are synthesised, in the order of the pieces: the names of the temporary
  files of the pieces that are not empty once stripped, and the audio their calls store.
  Both are given for any list of numbered pieces, and for the pieces as \<open>enumerate\<close>
  numbers them.
\<close>

definition item_names :: "pystr \<Rightarrow> (nat \<times> pystr) list \<Rightarrow> pystr list" where
  "item_names out_path items =
     List.map_filter (\<lambda>(i, p). if strip p = [] then None else Some (tmp_name out_path i)) items"

definition item_audio :: "synth \<Rightarrow> pystr \<Rightarrow> pystr \<Rightarrow> (nat \<times> pystr) list \<Rightarrow> bytes list" where
  "item_audio synthesize lang out_path items =
     List.map_filter (\<lambda>(i, p). if strip p = [] then None
        else (case synthesize (strip p) lang (tmp_name out_path i) of
                Inr audio \<Rightarrow> Some audio | Inl e \<Rightarrow> None)) items"

definition chunk_names :: "pystr \<Rightarrow> pystr list \<Rightarrow> pystr list" where
  "chunk_names out_path pieces = item_names out_path (enumerate pieces)"

definition chunk_audio :: "synth \<Rightarrow> pystr \<Rightarrow> pystr \<Rightarrow> pystr list \<Rightarrow> bytes list" where
  "chunk_audio synthesize lang out_path pieces =
     item_audio synthesize lang out_path (enumerate pieces)"

section \<open>Serving a file with byte ranges\<close>







section \<open>Properties of the script detector\<close>

lemma range_loop_eq:
  "range_loop cp script counts ranges = (if in_ranges cp ranges then incr counts script else counts)"
  by (induction cp script counts ranges rule: range_loop.induct) (simp_all add: in_ranges_def)

lemma script_loop_eq:
  "script_loop cp counts items =
     map (\<lambda>(s, n). (s, n + length (filter (\<lambda>(k, rs). k = s \<and> in_ranges cp rs) items))) counts"
proof (induction items arbitrary: counts)
  case Nil
  show ?case by (simp add: case_prod_unfold)
next
  case (Cons item items)
  obtain script ranges where item: "item = (script, ranges)" by (cases item)
  show ?case
    by (simp add: item Cons.IH range_loop_eq incr_def case_prod_unfold o_def)
qed

lemma hits_distinct:
  "distinct (map fst items) \<Longrightarrow>
   length (filter (\<lambda>(k, rs). k = s \<and> in_ranges cp rs) items) =
     (case map_of items s of None \<Rightarrow> 0 | Some rs \<Rightarrow> if in_ranges cp rs then 1 else 0)"
proof (induction items arbitrary: s)
  case Nil
  show ?case by simp
next
  case (Cons item items)
  obtain k rs where item: "item = (k, rs)" by (cases item)
  from Cons.prems have d: "distinct (map fst items)" and nk: "k \<notin> fst ` set items"
    by (simp_all add: item)
  have none: "map_of items k = None" using nk by (simp add: map_of_eq_None_iff)
  have z: "length (filter (\<lambda>(k', rs). k' = k \<and> in_ranges cp rs) items) = 0"
    using Cons.IH [OF d, of k] none by simp
  show ?case
  proof (cases "k = s")
    case True
    then show ?thesis using z by (simp add: item)
  next
    case False
    then show ?thesis using Cons.IH [OF d, of s] by (simp add: item)
  qed
qed

lemma text_loop_eq:
  "text_loop counts text =
     map (\<lambda>(s, n). (s, n + sum_list (map (\<lambda>cp.
        length (filter (\<lambda>(k, rs). k = s \<and> in_ranges cp rs) SCRIPT_RANGES)) text))) counts"
proof (induction "text" arbitrary: counts)
  case Nil
  show ?case by (simp add: case_prod_unfold)
next
  case (Cons ch rest)
  show ?case
    by (simp add: Cons.IH script_loop_eq case_prod_unfold o_def add.assoc)
qed

lemma distinct_scripts: "distinct (map fst SCRIPT_RANGES)"
  by (simp add: SCRIPT_RANGES_def py_def)

lemma sum_indicator: "sum_list (map (\<lambda>x. if P x then 1 else 0) xs) = length (filter P xs)"
  by (induction xs) simp_all

lemma hits_total:
  "sum_list (map (\<lambda>cp. length (filter (\<lambda>(k, rs). k = s \<and> in_ranges cp rs) SCRIPT_RANGES)) text)
     = script_count s text"
proof (cases "map_of SCRIPT_RANGES s")
  case None
  then show ?thesis
    by (simp add: hits_distinct [OF distinct_scripts] script_count_def)
next
  case (Some rs)
  then show ?thesis
    by (simp add: hits_distinct [OF distinct_scripts] script_count_def sum_indicator)
qed

lemma final_counts:
  "script_counts text = map (\<lambda>s. (s, script_count s text)) (map fst SCRIPT_RANGES)"
  by (simp add: script_counts_def text_loop_eq hits_total [unfolded case_prod_unfold] case_prod_unfold o_def)



lemma max_from_split:
  "\<exists>ys zs. best # xs = ys @ max_from key best xs # zs \<and>
     (\<forall>y\<in>set ys. key y < key (max_from key best xs)) \<and>
     (\<forall>z\<in>set zs. key z \<le> key (max_from key best xs))"
proof (induction xs arbitrary: best)
  case Nil
  have "[best] = [] @ best # []" by simp
  then show ?case by (intro exI [of _ "[]"]) simp
next
  case (Cons x xs)
  show ?case
  proof (cases "key best < key x")
    case True
    define m where "m = max_from key x xs"
    from Cons.IH [of x] obtain ys zs where
      sp: "x # xs = ys @ m # zs" and lt: "\<forall>y\<in>set ys. key y < key m"
      and le: "\<forall>z\<in>set zs. key z \<le> key m" unfolding m_def by blast
    have "x \<in> set (ys @ m # zs)" using sp by (metis list.set_intros(1))
    then have "key x \<le> key m" using lt le by auto
    then have "key best < key m" using True by simp
    then have "best # x # xs = (best # ys) @ m # zs \<and>
        (\<forall>y\<in>set (best # ys). key y < key m) \<and> (\<forall>z\<in>set zs. key z \<le> key m)"
      using sp lt le by simp
    moreover have "max_from key best (x # xs) = m" using True by (simp add: m_def)
    ultimately show ?thesis by blast
  next
    case False
    define m where "m = max_from key best xs"
    from Cons.IH [of best] obtain ys zs where
      sp: "best # xs = ys @ m # zs" and lt: "\<forall>y\<in>set ys. key y < key m"
      and le: "\<forall>z\<in>set zs. key z \<le> key m" unfolding m_def by blast
    have eq: "max_from key best (x # xs) = m" using False by (simp add: m_def)
    have "\<exists>ys' zs'. best # x # xs = ys' @ m # zs' \<and>
        (\<forall>y\<in>set ys'. key y < key m) \<and> (\<forall>z\<in>set zs'. key z \<le> key m)"
    proof (cases ys)
      case Nil
      then have "best = m" and "xs = zs" using sp by simp_all
      then have "best # x # xs = [] @ m # (x # zs) \<and>
          (\<forall>y\<in>set []. key y < key m) \<and>
          (\<forall>z\<in>set (x # zs). key z \<le> key m)" using False le by auto
      then show ?thesis by blast
    next
      case (Cons y ys')
      then have b: "best = y" and xs: "xs = ys' @ m # zs" using sp by simp_all
      have "key best < key m" using lt Cons b by simp
      then have "key x < key m" using False by simp
      then have "best # x # xs = (best # x # ys') @ m # zs \<and>
          (\<forall>y\<in>set (best # x # ys'). key y < key m)"
        using xs lt Cons b by auto
      then show ?thesis using le by blast
    qed
    then show ?thesis unfolding eq .
  qed
qed

lemma find_app:
  "find P (xs @ ys) = (case find P xs of None \<Rightarrow> find P ys | Some x \<Rightarrow> Some x)"
  by (induction xs) simp_all

lemma find_first_max:
  fixes f :: "'a \<Rightarrow> nat"
  assumes "\<forall>y\<in>set ys. f y < f m" and "\<forall>z\<in>set zs. f z \<le> f m"
  shows "find (\<lambda>s. \<forall>t\<in>set (ys @ m # zs). f t \<le> f s) (ys @ m # zs) = Some m"
proof -
  let ?P = "\<lambda>s. \<forall>t\<in>set (ys @ m # zs). f t \<le> f s"
  have no: "\<forall>y\<in>set ys. \<not> ?P y" using assms(1) by (auto simp: not_le intro!: bexI [of _ m])
  have yes: "?P m" using assms by (auto intro: less_imp_le)
  have "find ?P ys = None" using no by (simp add: find_None_iff)
  then show ?thesis using yes by (simp add: find_app)
qed

lemma detect_not_trivial:
  assumes "text \<noteq> []" and "strip text \<noteq> []"
  shows "\<exists>s. highest_count_script text = Some s \<and>
     detect_script text = Inr (if 0 < script_count s text then s else py ''unknown'')"
proof -
  let ?keys = "map fst SCRIPT_RANGES"
  let ?f = "\<lambda>s. script_count s text"
  define items where "items = map (\<lambda>s. (s, ?f s)) ?keys"
  obtain k ks where keys: "?keys = k # ks"
    by (simp add: SCRIPT_RANGES_def)
  define m where "m = max_from snd (k, ?f k) (map (\<lambda>s. (s, ?f s)) ks)"
  have items: "items = (k, ?f k) # map (\<lambda>s. (s, ?f s)) ks"
    unfolding items_def keys by simp
  have pm: "py_max snd items = Inr m"
    unfolding items by (simp add: py_max_def m_def)
  from max_from_split [of "(k, ?f k)" "map (\<lambda>s. (s, ?f s)) ks" snd]
  obtain ys zs where sp: "items = ys @ m # zs"
    and lt: "\<forall>y\<in>set ys. snd y < snd m" and le: "\<forall>z\<in>set zs. snd z \<le> snd m"
    unfolding items m_def by blast
  have "\<forall>p\<in>set items. snd p = ?f (fst p)" by (auto simp: items_def)
  then have all: "\<forall>p\<in>set (ys @ m # zs). snd p = ?f (fst p)" unfolding sp .
  have "map fst items = ?keys" by (simp add: items_def o_def)
  then have ks: "?keys = map fst ys @ fst m # map fst zs" unfolding sp by simp
  have "find (\<lambda>s. \<forall>t\<in>set (map fst ys @ fst m # map fst zs). ?f t \<le> ?f s)
          (map fst ys @ fst m # map fst zs) = Some (fst m)"
    using lt le all by (intro find_first_max) auto
  then have h: "highest_count_script text = Some (fst m)"
    unfolding highest_count_script_def ks .
  have sm: "snd m = ?f (fst m)" using all by simp
  have "script_counts text = items"
    unfolding items_def by (rule final_counts)
  then have "detect_script text = Inr (if 0 < snd m then fst m else py ''unknown'')"
    using assms pm by (simp add: detect_script_def)
  then show ?thesis using h sm by simp
qed


lemma highest_count_is_max:
  assumes "highest_count_script text = Some s"
  shows "\<forall>t\<in>set (map fst SCRIPT_RANGES). script_count t text \<le> script_count s text"
  using assms unfolding highest_count_script_def by (auto simp: find_Some_iff)

lemma strip_all_space:
  assumes "\<forall>c\<in>set s. is_space c"
  shows "strip s = []"
proof -
  have d: "dropWhile is_space s = []" using assms by (induction s) simp_all
  show ?thesis unfolding strip_def d by simp
qed

lemma no_hit_count: "\<forall>cp\<in>set text. \<forall>(s, rs)\<in>set SCRIPT_RANGES. \<not> in_ranges cp rs
   \<Longrightarrow> script_count k text = 0"
  by (auto simp: script_count_def filter_empty_conv split: option.splits dest!: map_of_SomeD)

text \<open>
  Claim C8. \<open>detect_script\<close> answers \<open>unknown\<close> for the empty text, for a text made of
  whitespace only, and for a text none of whose code points lies in a range of any script
  (then every counter is zero).
\<close>

theorem detect_unknown:
  assumes "text = [] \<or> (\<forall>c\<in>set text. is_space c) \<or>
           (\<forall>cp\<in>set text. \<forall>(s, rs)\<in>set SCRIPT_RANGES. \<not> in_ranges cp rs)"
  shows "detect_script text = Inr (py ''unknown'')"
proof (cases "text = [] \<or> strip text = []")
  case True
  then show ?thesis by (simp add: detect_script_def)
next
  case False
  then have ne: "text \<noteq> []" "strip text \<noteq> []" by simp_all
  with assms strip_all_space have
    z: "\<forall>cp\<in>set text. \<forall>(s, rs)\<in>set SCRIPT_RANGES. \<not> in_ranges cp rs" by blast
  from detect_not_trivial [OF ne] obtain s where
    "detect_script text = Inr (if 0 < script_count s text then s else py ''unknown'')" by blast
  then show ?thesis using no_hit_count [OF z] by simp
qed

theorem detect_unknown_witness:
  "detect_script [] = Inr (py ''unknown'') \<and>
   list_all is_space [0x20, 0x09, 0x20] \<and>
   detect_script [0x20, 0x09, 0x20] = Inr (py ''unknown'') \<and>
   list_all (\<lambda>cp. list_all (\<lambda>(s, rs). \<not> in_ranges cp rs) SCRIPT_RANGES) [0xE9, 0x4E2D] \<and>
   detect_script [0xE9, 0x4E2D] = Inr (py ''unknown'')"
proof -
  have sp: "\<forall>c\<in>set [0x20, 0x09, 0x20]. is_space c"
    by (simp add: is_space_def)
  have no: "\<forall>cp\<in>set [0xE9, 0x4E2D]. \<forall>(s, rs)\<in>set SCRIPT_RANGES. \<not> in_ranges cp rs"
    by (simp add: SCRIPT_RANGES_def in_ranges_def)
  have "detect_script [] = Inr (py ''unknown'')"
    using detect_unknown [of "[]"] by simp
  moreover have "detect_script [0x20, 0x09, 0x20] = Inr (py ''unknown'')"
    using sp detect_unknown [of "[0x20, 0x09, 0x20]"] by blast
  moreover have "detect_script [0xE9, 0x4E2D] = Inr (py ''unknown'')"
    using no detect_unknown [of "[0xE9, 0x4E2D]"] by blast
  ultimately show ?thesis
    using sp no by (simp add: list_all_iff)
qed

text \<open>
  Claim C6, amended. For a text that is neither empty nor all whitespace and has at least
  one character in the range of some script, \<open>detect_script\<close> answers the script with the
  highest counter, and among scripts that share the highest counter the first one in the
  order of the range table.
\<close>

theorem detect_highest:
  assumes "text \<noteq> []" and "strip text \<noteq> []"
    and "\<exists>t\<in>set (map fst SCRIPT_RANGES). 0 < script_count t text"
  shows "\<exists>s. highest_count_script text = Some s \<and> detect_script text = Inr s"
proof -
  from detect_not_trivial [OF assms(1,2)] obtain s where
    h: "highest_count_script text = Some s" and
    d: "detect_script text = Inr (if 0 < script_count s text then s else py ''unknown'')"
    by blast
  from assms(3) obtain t where "t \<in> set (map fst SCRIPT_RANGES)" "0 < script_count t text"
    by blast
  with highest_count_is_max [OF h] have "0 < script_count s text" by fastforce
  with h d show ?thesis by simp
qed

lemma map_of_graph: "k \<in> set ks \<Longrightarrow> map_of (map (\<lambda>s. (s, f s)) ks) k = Some (f k)"
  by (induction ks) auto

lemma latin_counter:
  "map_of (script_counts text) (py ''latin'') = Some (length (filter (\<lambda>cp. cp \<le> 0x7F) text))"
proof -
  have r: "map_of SCRIPT_RANGES (py ''latin'') = Some [(0x0000, 0x007F)]"
    by (simp add: SCRIPT_RANGES_def py_def)
  have k: "py ''latin'' \<in> set (map fst SCRIPT_RANGES)"
    by (simp add: SCRIPT_RANGES_def)
  have "map_of (script_counts text) (py ''latin'') = Some (script_count (py ''latin'') text)"
    unfolding final_counts using k by (rule map_of_graph)
  then show ?thesis by (simp add: script_count_def r in_ranges_def)
qed

lemma py_eq_iff: "py a = py b \<longleftrightarrow> a = b"
proof -
  have "inj (of_char :: char \<Rightarrow> nat)" by (rule injI) simp
  then show ?thesis unfolding py_def by (simp add: inj_map_eq_map)
qed

text \<open>The counters of three sample texts.\<close>

lemma counts_tie:
  "script_count (py ''devanagari'') [0x0905, 0x41] = 1 \<and>
   script_count (py ''bengali'') [0x0905, 0x41] = 0 \<and>
   script_count (py ''gurmukhi'') [0x0905, 0x41] = 0 \<and>
   script_count (py ''gujarati'') [0x0905, 0x41] = 0 \<and>
   script_count (py ''oriya'') [0x0905, 0x41] = 0 \<and>
   script_count (py ''tamil'') [0x0905, 0x41] = 0 \<and>
   script_count (py ''telugu'') [0x0905, 0x41] = 0 \<and>
   script_count (py ''kannada'') [0x0905, 0x41] = 0 \<and>
   script_count (py ''malayalam'') [0x0905, 0x41] = 0 \<and>
   script_count (py ''latin'') [0x0905, 0x41] = 1"
  by (simp add: script_count_def SCRIPT_RANGES_def py_eq_iff in_ranges_def)

lemma counts_none:
  "script_count (py ''devanagari'') [0xE9] = 0 \<and>
   script_count (py ''bengali'') [0xE9] = 0 \<and>
   script_count (py ''gurmukhi'') [0xE9] = 0 \<and>
   script_count (py ''gujarati'') [0xE9] = 0 \<and>
   script_count (py ''oriya'') [0xE9] = 0 \<and>
   script_count (py ''tamil'') [0xE9] = 0 \<and>
   script_count (py ''telugu'') [0xE9] = 0 \<and>
   script_count (py ''kannada'') [0xE9] = 0 \<and>
   script_count (py ''malayalam'') [0xE9] = 0 \<and>
   script_count (py ''latin'') [0xE9] = 0"
  by (simp add: script_count_def SCRIPT_RANGES_def py_eq_iff in_ranges_def)

lemma counts_spaces:
  "script_count (py ''devanagari'') [0x0905, 0x20, 0x20] = 1 \<and>
   script_count (py ''bengali'') [0x0905, 0x20, 0x20] = 0 \<and>
   script_count (py ''gurmukhi'') [0x0905, 0x20, 0x20] = 0 \<and>
   script_count (py ''gujarati'') [0x0905, 0x20, 0x20] = 0 \<and>
   script_count (py ''oriya'') [0x0905, 0x20, 0x20] = 0 \<and>
   script_count (py ''tamil'') [0x0905, 0x20, 0x20] = 0 \<and>
   script_count (py ''telugu'') [0x0905, 0x20, 0x20] = 0 \<and>
   script_count (py ''kannada'') [0x0905, 0x20, 0x20] = 0 \<and>
   script_count (py ''malayalam'') [0x0905, 0x20, 0x20] = 0 \<and>
   script_count (py ''latin'') [0x0905, 0x20, 0x20] = 2"
  by (simp add: script_count_def SCRIPT_RANGES_def py_eq_iff in_ranges_def)

theorem detect_highest_witness:
  "0 < script_count (py ''devanagari'') [0x0905, 0x41] \<and>
   script_count (py ''latin'') [0x0905, 0x41] = script_count (py ''devanagari'') [0x0905, 0x41] \<and>
   highest_count_script [0x0905, 0x41] = Some (py ''devanagari'') \<and>
   detect_script [0x0905, 0x41] = Inr (py ''devanagari'')"
proof -
  let ?t = "[0x0905, 0x41] :: pystr"
  have c: "0 < script_count (py ''devanagari'') ?t" by (simp add: counts_tie)
  have e: "script_count (py ''latin'') ?t = script_count (py ''devanagari'') ?t"
    by (simp add: counts_tie)
  have h: "highest_count_script ?t = Some (py ''devanagari'')"
    by (simp add: highest_count_script_def SCRIPT_RANGES_def counts_tie py_eq_iff)
  have n: "?t \<noteq> []" by simp
  have s: "strip ?t \<noteq> []" by (simp add: strip_def is_space_def)
  have k: "py ''devanagari'' \<in> set (map fst SCRIPT_RANGES)" by (simp add: SCRIPT_RANGES_def)
  have "\<exists>t\<in>set (map fst SCRIPT_RANGES). 0 < script_count t ?t" using c k by blast
  from detect_highest [OF n s this] h have "detect_script ?t = Inr (py ''devanagari'')" by simp
  with c e h show ?thesis by simp
qed

text \<open>
  Claim C6 as stated fails on a text whose characters lie in no range: every counter is
  zero, so the first script of the table is the one the claim names, but the answer is
  \<open>unknown\<close>.
\<close>

theorem detect_highest_counterexample:
  "[0xE9] \<noteq> ([] :: pystr) \<and> strip [0xE9] \<noteq> [] \<and>
   highest_count_script [0xE9] = Some (py ''devanagari'') \<and>
   detect_script [0xE9] = Inr (py ''unknown'') \<and>
   py ''unknown'' \<noteq> py ''devanagari''"
proof -
  have s: "strip [0xE9] \<noteq> []" by (simp add: strip_def is_space_def)
  have h: "highest_count_script [0xE9] = Some (py ''devanagari'')"
    by (simp add: highest_count_script_def SCRIPT_RANGES_def counts_none py_eq_iff)
  from detect_not_trivial [of "[0xE9]"] s h
  have d: "detect_script [0xE9] = Inr (py ''unknown'')" by (simp add: counts_none)
  have "py ''unknown'' \<noteq> py ''devanagari''" by (simp add: py_eq_iff)
  with s h d show ?thesis by simp
qed

lemma find_last:
  assumes "l \<notin> set xs"
  shows "find P (xs @ [l]) = Some l \<longleftrightarrow> P l \<and> (\<forall>x\<in>set xs. \<not> P x)"
proof (cases "find P xs")
  case None
  then have n: "\<forall>x\<in>set xs. \<not> P x" by (simp add: find_None_iff)
  show ?thesis using n by (simp add: find_app None)
next
  case (Some x)
  then have "x \<in> set xs" and "P x" by (auto simp: find_Some_iff)
  with Some assms show ?thesis by (auto simp: find_app)
qed

lemma latin_count: "script_count (py ''latin'') text = length (filter (\<lambda>cp. cp \<le> 0x7F) text)"
proof -
  have r: "map_of SCRIPT_RANGES (py ''latin'') = Some [(0x0000, 0x007F)]"
    by (simp add: SCRIPT_RANGES_def py_def)
  show ?thesis by (simp add: script_count_def r in_ranges_def)
qed

lemma keys_latin_last:
  "map fst SCRIPT_RANGES = butlast (map fst SCRIPT_RANGES) @ [py ''latin''] \<and>
   py ''latin'' \<notin> set (butlast (map fst SCRIPT_RANGES))"
  by (simp add: SCRIPT_RANGES_def py_eq_iff)

lemma latin_wins_iff:
  assumes "strip text \<noteq> []"
  shows "detect_script text = Inr (py ''latin'') \<longleftrightarrow>
     (\<forall>s\<in>set (map fst SCRIPT_RANGES). s \<noteq> py ''latin'' \<longrightarrow>
        script_count s text < length (filter (\<lambda>cp. cp \<le> 0x7F) text))"
proof -
  define others where "others = butlast (map fst SCRIPT_RANGES)"
  define f where "f = (\<lambda>s. script_count s text)"
  have keys: "map fst SCRIPT_RANGES = others @ [py ''latin'']"
    and nl: "py ''latin'' \<notin> set others"
    using keys_latin_last by (simp_all add: others_def)
  have dev: "py ''devanagari'' \<in> set others"
    by (simp add: others_def SCRIPT_RANGES_def)
  have ne: "text \<noteq> []" using assms by (auto simp: strip_def)
  from detect_not_trivial [OF ne assms] obtain s0 where
    h: "highest_count_script text = Some s0" and
    d: "detect_script text = Inr (if 0 < f s0 then s0 else py ''unknown'')"
    unfolding f_def by blast
  have u: "py ''unknown'' \<noteq> py ''latin''" by (simp add: py_eq_iff)
  have hl: "highest_count_script text = Some (py ''latin'') \<longleftrightarrow>
      (\<forall>t\<in>set (others @ [py ''latin'']). f t \<le> f (py ''latin'')) \<and>
      (\<forall>x\<in>set others. \<not> (\<forall>t\<in>set (others @ [py ''latin'']). f t \<le> f x))"
    unfolding highest_count_script_def keys f_def using nl by (rule find_last)
  have rhs: "(\<forall>s\<in>set (map fst SCRIPT_RANGES). s \<noteq> py ''latin'' \<longrightarrow> f s < f (py ''latin''))
      \<longleftrightarrow> (\<forall>x\<in>set others. f x < f (py ''latin''))"
    unfolding keys using nl by auto
  have core: "highest_count_script text = Some (py ''latin'') \<longleftrightarrow>
      (\<forall>x\<in>set others. f x < f (py ''latin''))"
  proof
    assume "highest_count_script text = Some (py ''latin'')"
    with hl have a: "\<forall>t\<in>set (others @ [py ''latin'']). f t \<le> f (py ''latin'')"
      and b: "\<forall>x\<in>set others. \<not> (\<forall>t\<in>set (others @ [py ''latin'']). f t \<le> f x)" by simp_all
    show "\<forall>x\<in>set others. f x < f (py ''latin'')"
    proof
      fix x assume "x \<in> set others"
      with b obtain t where t: "t \<in> set (others @ [py ''latin''])" "f x < f t"
        by (auto simp: not_le)
      with a have "f t \<le> f (py ''latin'')" by blast
      with t show "f x < f (py ''latin'')" by simp
    qed
  next
    assume a: "\<forall>x\<in>set others. f x < f (py ''latin'')"
    then have "\<forall>t\<in>set (others @ [py ''latin'']). f t \<le> f (py ''latin'')"
      by (auto intro: less_imp_le)
    moreover have "\<forall>x\<in>set others. \<not> (\<forall>t\<in>set (others @ [py ''latin'']). f t \<le> f x)"
      using a by (auto simp: not_le)
    ultimately show "highest_count_script text = Some (py ''latin'')" using hl by blast
  qed
  have fin: "detect_script text = Inr (py ''latin'') \<longleftrightarrow> (\<forall>x\<in>set others. f x < f (py ''latin''))"
  proof
    assume "detect_script text = Inr (py ''latin'')"
    with d u have "s0 = py ''latin''" by (auto split: if_splits)
    with h core show "\<forall>x\<in>set others. f x < f (py ''latin'')" by simp
  next
    assume a: "\<forall>x\<in>set others. f x < f (py ''latin'')"
    with core h have s0: "s0 = py ''latin''" by simp
    from a dev have "0 < f (py ''latin'')" by fastforce
    with d s0 show "detect_script text = Inr (py ''latin'')" by simp
  qed
  have "detect_script text = Inr (py ''latin'') \<longleftrightarrow>
      (\<forall>s\<in>set (map fst SCRIPT_RANGES). s \<noteq> py ''latin'' \<longrightarrow> f s < f (py ''latin''))"
    unfolding rhs by (rule fin)
  then show ?thesis by (simp add: f_def latin_count)
qed

text \<open>
  Claim C10. Every code point up to \<open>0x7F\<close>, the space and the punctuation among them,
  counts for \<open>latin\<close>: the \<open>latin\<close> counter is the number of such characters of the text.
  These characters compete with the other scripts: a text that is not all whitespace is
  detected as \<open>latin\<close> exactly when every other script has fewer characters in the text
  than there are code points up to \<open>0x7F\<close>. So one Devanagari letter followed by two spaces
  is detected as \<open>latin\<close>.
\<close>

theorem ascii_counts_as_latin:
  "map_of (script_counts text) (py ''latin'') = Some (length (filter (\<lambda>cp. cp \<le> 0x7F) text)) \<and>
   (strip text \<noteq> [] \<longrightarrow>
      (detect_script text = Inr (py ''latin'') \<longleftrightarrow>
         (\<forall>s\<in>set (map fst SCRIPT_RANGES). s \<noteq> py ''latin'' \<longrightarrow>
            script_count s text < length (filter (\<lambda>cp. cp \<le> 0x7F) text)))) \<and>
   is_space 0x20 \<and>
   detect_script [0x0905, 0x20, 0x20] = Inr (py ''latin'')"
proof -
  have s: "strip [0x0905, 0x20, 0x20] \<noteq> []" by (simp add: strip_def is_space_def)
  have h: "highest_count_script [0x0905, 0x20, 0x20] = Some (py ''latin'')"
    by (simp add: highest_count_script_def SCRIPT_RANGES_def counts_spaces py_eq_iff)
  from detect_not_trivial [of "[0x0905, 0x20, 0x20]"] s h
  have "detect_script [0x0905, 0x20, 0x20] = Inr (py ''latin'')" by (simp add: counts_spaces)
  moreover have "is_space 0x20" by (simp add: is_space_def)
  ultimately show ?thesis using latin_counter [of "text"] latin_wins_iff [of "text"] by blast
qed

theorem ascii_counts_as_latin_witness:
  "strip [0x0905, 0x0906, 0x0907, 0x20] \<noteq> [] \<and>
   script_count (py ''devanagari'') [0x0905, 0x0906, 0x0907, 0x20] = 3 \<and>
   length (filter (\<lambda>cp. cp \<le> 0x7F) [0x0905, 0x0906, 0x0907, 0x20 :: nat]) = 1 \<and>
   detect_script [0x0905, 0x0906, 0x0907, 0x20] \<noteq> Inr (py ''latin'')"
proof -
  let ?t = "[0x0905, 0x0906, 0x0907, 0x20] :: pystr"
  have s: "strip ?t \<noteq> []" by (simp add: strip_def is_space_def)
  have c: "script_count (py ''devanagari'') ?t = 3"
    by (simp add: script_count_def SCRIPT_RANGES_def py_eq_iff in_ranges_def)
  have k: "py ''devanagari'' \<in> set (map fst SCRIPT_RANGES)" by (simp add: SCRIPT_RANGES_def)
  have n: "py ''devanagari'' \<noteq> py ''latin''" by (simp add: py_eq_iff)
  have "\<not> (\<forall>s\<in>set (map fst SCRIPT_RANGES). s \<noteq> py ''latin'' \<longrightarrow>
            script_count s ?t < length (filter (\<lambda>cp. cp \<le> 0x7F) ?t))"
  proof
    assume "\<forall>s\<in>set (map fst SCRIPT_RANGES). s \<noteq> py ''latin'' \<longrightarrow>
            script_count s ?t < length (filter (\<lambda>cp. cp \<le> 0x7F) ?t)"
    with k n have "script_count (py ''devanagari'') ?t < length (filter (\<lambda>cp. cp \<le> 0x7F) ?t)"
      by blast
    with c show False by simp
  qed
  with ascii_counts_as_latin [of ?t] s
  have "detect_script ?t \<noteq> Inr (py ''latin'')" by blast
  with s c show ?thesis by simp
qed

section \<open>Properties of schwa deletion\<close>

lemma detect_total: "\<exists>d. detect_script s = Inr d"
proof (cases "s = [] \<or> strip s = []")
  case True
  then show ?thesis by (simp add: detect_script_def)
next
  case False
  then show ?thesis using detect_not_trivial [of s] by auto
qed

lemma is_word_a: "is_word alnum 0x61"
  by (simp add: is_word_def)

lemma sub_a_step:
  "sub_a_boundary alnum (c # cs) =
     (if c = 0x61 \<and> (case cs of [] \<Rightarrow> True | d # _ \<Rightarrow> \<not> is_word alnum d)
      then sub_a_boundary alnum cs else c # sub_a_boundary alnum cs)"
proof -
  have b: "word_boundary alnum (Some c) (case cs of [] \<Rightarrow> None | d # _ \<Rightarrow> Some d) =
      (case cs of [] \<Rightarrow> True | d # _ \<Rightarrow> \<not> is_word alnum d)" if "c = 0x61"
    using that by (cases cs) (simp_all add: word_boundary_def is_word_a)
  show ?thesis
    unfolding sub_a_boundary.simps(2) [of alnum c cs] using b by auto
qed

lemma drop_a_step:
  "drop_word_final_a alnum (c # cs) =
     (if c = 0x61 \<and> (case cs of [] \<Rightarrow> True | d # _ \<Rightarrow> \<not> is_word alnum d)
      then drop_word_final_a alnum cs else c # drop_word_final_a alnum cs)"
  by (cases cs) (simp_all add: drop_word_final_a_def successors_def)

lemma sub_a_boundary_eq: "sub_a_boundary alnum s = drop_word_final_a alnum s"
proof (induction s)
  case Nil
  show ?case by (simp add: drop_word_final_a_def successors_def)
next
  case (Cons c cs)
  show ?case unfolding sub_a_step drop_a_step Cons.IH ..
qed

lemma sub_spaces_not_space:
  "\<not> is_space c \<Longrightarrow> sub_spaces (c # cs) = c # sub_spaces cs"
  by simp

lemma sub_spaces_head:
  "sub_spaces s = [] \<or> \<not> is_space (hd (sub_spaces s)) \<or>
     (\<exists>r. sub_spaces s = 0x20 # sub_spaces r \<and> (r = [] \<or> \<not> is_space (hd r)))"
proof (cases s)
  case Nil
  then show ?thesis by simp
next
  case (Cons c cs)
  show ?thesis
  proof (cases "is_space c")
    case True
    have "dropWhile is_space cs = [] \<or> \<not> is_space (hd (dropWhile is_space cs))"
      by (metis hd_dropWhile)
    then show ?thesis using True Cons by auto
  next
    case False
    then show ?thesis using Cons by simp
  qed
qed

lemma sub_spaces_single: "single_spaced (sub_spaces s)"
proof (induction s rule: sub_spaces.induct)
  case 1
  show ?case by simp
next
  case (2 c cs)
  show ?case
  proof (cases "is_space c")
    case True
    define r where "r = dropWhile is_space cs"
    have ih: "single_spaced (sub_spaces r)" using 2(1) True by (simp add: r_def)
    have hd: "r = [] \<or> \<not> is_space (hd r)" unfolding r_def by (metis hd_dropWhile)
    have "single_spaced (0x20 # sub_spaces r)"
    proof (cases r)
      case Nil
      then show ?thesis by simp
    next
      case (Cons d ds)
      then have nd: "\<not> is_space d" using hd by simp
      then have "sub_spaces r = d # sub_spaces ds" using Cons by simp
      then show ?thesis using ih nd by simp
    qed
    moreover have "sub_spaces (c # cs) = 0x20 # sub_spaces r"
      using True by (simp add: r_def)
    ultimately show ?thesis by simp
  next
    case False
    have ih: "single_spaced (sub_spaces cs)" using 2(2) False by simp
    have "single_spaced (c # sub_spaces cs)"
      using ih False by (cases "sub_spaces cs") simp_all
    then show ?thesis using False by simp
  qed
qed

lemma sub_spaces_keeps: "filter (\<lambda>c. \<not> is_space c) (sub_spaces s) = filter (\<lambda>c. \<not> is_space c) s"
proof (induction s rule: sub_spaces.induct)
  case 1
  show ?case by simp
next
  case (2 c cs)
  have sp: "is_space 0x20" by (simp add: is_space_def)
  have f: "filter (\<lambda>c. \<not> is_space c) (dropWhile is_space cs) = filter (\<lambda>c. \<not> is_space c) cs"
    by (induction cs) simp_all
  show ?case using 2 sp f by (cases "is_space c") simp_all
qed

lemma sub_spaces_only_space: "c \<in> set (sub_spaces s) \<Longrightarrow> is_space c \<Longrightarrow> c = 0x20"
proof (induction s rule: sub_spaces.induct)
  case 1
  then show ?case by simp
next
  case (2 d ds)
  then show ?case by (cases "is_space d") auto
qed

section \<open>Properties of the transliteration step\<close>

lemma image_nonempty:
  assumes "extracted \<noteq> []" and "detect_script extracted = Inr d"
  shows "transliterate_image alnum tr extracted target =
    Inr \<lparr>original_text = extracted,
      transliterated_text =
        (if d = py ''devanagari'' \<and> target = py ''latin''
         then schwa_delete_for_devanagari_to_latin alnum
           (snd (transliterate_with_fallback tr extracted
              (dict_get SANSCRIPT_MAP d (py ''iast'')) (dict_get SANSCRIPT_MAP target (py ''itrans''))))
         else snd (transliterate_with_fallback tr extracted
              (dict_get SANSCRIPT_MAP d (py ''iast'')) (dict_get SANSCRIPT_MAP target (py ''itrans'')))),
      detected_script = d, target_script = target,
      langCode = dict_get TTS_LANG_MAP d (dict_get TTS_LANG_MAP target (py ''en'')),
      error = [],
      tts_request =
        (let spoken = (if d \<noteq> py ''latin'' then extracted
           else (if d = py ''devanagari'' \<and> target = py ''latin''
             then schwa_delete_for_devanagari_to_latin alnum
               (snd (transliterate_with_fallback tr extracted
                 (dict_get SANSCRIPT_MAP d (py ''iast'')) (dict_get SANSCRIPT_MAP target (py ''itrans''))))
             else snd (transliterate_with_fallback tr extracted
                 (dict_get SANSCRIPT_MAP d (py ''iast'')) (dict_get SANSCRIPT_MAP target (py ''itrans'')))))
         in if strip spoken \<noteq> [] then
              Some (spoken, dict_get TTS_LANG_MAP d (dict_get TTS_LANG_MAP target (py ''en'')))
            else None),
      engine_calls = fst (transliterate_with_fallback tr extracted
              (dict_get SANSCRIPT_MAP d (py ''iast'')) (dict_get SANSCRIPT_MAP target (py ''itrans'')))\<rparr>"
  using assms by (simp add: transliterate_image_def Let_def split: prod.splits)

lemma image_total: "\<exists>r. transliterate_image alnum tr extracted target = Inr r"
proof (cases "extracted = []")
  case True
  then show ?thesis by (simp add: transliterate_image_def)
next
  case False
  from detect_total obtain d where "detect_script extracted = Inr d" by blast
  from image_nonempty [OF False this] show ?thesis by blast
qed

lemma fallback_same: "transliterate_with_fallback tr x s s = ([], x)"
  by (simp add: transliterate_with_fallback_def direct_attempt_def)

lemma fallback_cases:
  "transliterate_with_fallback tr x f t =
     (if f = t then ([], x)
      else
        (case tr x f t of
           Inr direct \<Rightarrow> ([(x, f, t)], direct)
         | Inl e \<Rightarrow>
             (case tr x f (py ''iast'') of
                Inl e1 \<Rightarrow> ([(x, f, t), (x, f, py ''iast'')], x)
              | Inr mid \<Rightarrow>
                  ([(x, f, t), (x, f, py ''iast''), (mid, py ''iast'', t)],
                   (case tr mid (py ''iast'') t of Inl e2 \<Rightarrow> x | Inr r \<Rightarrow> r)))))"
  by (simp add: transliterate_with_fallback_def direct_attempt_def two_hop_attempt_def
      split: sum.splits)

lemma counts_ka:
  "script_count (py ''devanagari'') [0x0915] = 1 \<and>
   script_count (py ''bengali'') [0x0915] = 0 \<and>
   script_count (py ''gurmukhi'') [0x0915] = 0 \<and>
   script_count (py ''gujarati'') [0x0915] = 0 \<and>
   script_count (py ''oriya'') [0x0915] = 0 \<and>
   script_count (py ''tamil'') [0x0915] = 0 \<and>
   script_count (py ''telugu'') [0x0915] = 0 \<and>
   script_count (py ''kannada'') [0x0915] = 0 \<and>
   script_count (py ''malayalam'') [0x0915] = 0 \<and>
   script_count (py ''latin'') [0x0915] = 0"
  by (simp add: script_count_def SCRIPT_RANGES_def py_eq_iff in_ranges_def)

lemma detect_ka: "detect_script [0x0915] = Inr (py ''devanagari'')"
proof -
  have s: "strip [0x0915] \<noteq> []" by (simp add: strip_def is_space_def)
  have h: "highest_count_script [0x0915] = Some (py ''devanagari'')"
    by (simp add: highest_count_script_def SCRIPT_RANGES_def counts_ka py_eq_iff)
  from detect_not_trivial [of "[0x0915]"] s h show ?thesis by (simp add: counts_ka)
qed

lemma counts_ka_nl_ka:
  "script_count (py ''devanagari'') [0x0915, 0x0A, 0x0915] = 2 \<and>
   script_count (py ''bengali'') [0x0915, 0x0A, 0x0915] = 0 \<and>
   script_count (py ''gurmukhi'') [0x0915, 0x0A, 0x0915] = 0 \<and>
   script_count (py ''gujarati'') [0x0915, 0x0A, 0x0915] = 0 \<and>
   script_count (py ''oriya'') [0x0915, 0x0A, 0x0915] = 0 \<and>
   script_count (py ''tamil'') [0x0915, 0x0A, 0x0915] = 0 \<and>
   script_count (py ''telugu'') [0x0915, 0x0A, 0x0915] = 0 \<and>
   script_count (py ''kannada'') [0x0915, 0x0A, 0x0915] = 0 \<and>
   script_count (py ''malayalam'') [0x0915, 0x0A, 0x0915] = 0 \<and>
   script_count (py ''latin'') [0x0915, 0x0A, 0x0915] = 1"
  by (simp add: script_count_def SCRIPT_RANGES_def py_eq_iff in_ranges_def)

lemma detect_ka_nl_ka: "detect_script [0x0915, 0x0A, 0x0915] = Inr (py ''devanagari'')"
proof -
  have s: "strip [0x0915, 0x0A, 0x0915] \<noteq> []" by (simp add: strip_def is_space_def)
  have h: "highest_count_script [0x0915, 0x0A, 0x0915] = Some (py ''devanagari'')"
    by (simp add: highest_count_script_def SCRIPT_RANGES_def counts_ka_nl_ka py_eq_iff)
  from detect_not_trivial [of "[0x0915, 0x0A, 0x0915]"] s h show ?thesis
    by (simp add: counts_ka_nl_ka)
qed

lemma scheme_dev: "dict_get SANSCRIPT_MAP (py ''devanagari'') (py ''iast'') = py ''devanagari''"
  by (simp add: dict_get_def SANSCRIPT_MAP_def py_eq_iff)

lemma scheme_tamil: "dict_get SANSCRIPT_MAP (py ''tamil'') (py ''itrans'') = py ''tamil''"
  by (simp add: dict_get_def SANSCRIPT_MAP_def py_eq_iff)

lemma scheme_latin: "dict_get SANSCRIPT_MAP (py ''latin'') (py ''itrans'') = py ''itrans''"
  by (simp add: dict_get_def SANSCRIPT_MAP_def py_eq_iff)

text \<open>
  Claim C4, amended. The transliteration step never raises: the handler answers with a
  reply for every engine, text and target. When the direct call succeeds its result is
  kept; when it raises, the two calls through \<open>iast\<close> are made in turn, and when one of
  them raises too, the extracted text is passed on in place of a transliteration. What is
  passed on is the answer for every pair of scripts other than \<open>devanagari\<close> to \<open>latin\<close>;
  for that pair it goes through schwa deletion first.
\<close>

theorem transliteration_degrades:
  "(\<exists>r. transliterate_image alnum tr extracted target = Inr r) \<and>
   (extracted \<noteq> [] \<and> detect_script extracted = Inr d \<and>
    f = dict_get SANSCRIPT_MAP d (py ''iast'') \<and>
    t = dict_get SANSCRIPT_MAP target (py ''itrans'') \<longrightarrow>
      (\<exists>r raw. transliterate_image alnum tr extracted target = Inr r \<and>
         transliterated_text r =
           (if d = py ''devanagari'' \<and> target = py ''latin''
            then schwa_delete_for_devanagari_to_latin alnum raw else raw) \<and>
         (engine_calls r, raw) =
           (if f = t then ([], extracted)
            else
              (case tr extracted f t of
                 Inr direct \<Rightarrow> ([(extracted, f, t)], direct)
               | Inl e \<Rightarrow>
                   (case tr extracted f (py ''iast'') of
                      Inl e1 \<Rightarrow> ([(extracted, f, t), (extracted, f, py ''iast'')], extracted)
                    | Inr mid \<Rightarrow>
                        ([(extracted, f, t), (extracted, f, py ''iast''), (mid, py ''iast'', t)],
                         (case tr mid (py ''iast'') t of
                            Inl e2 \<Rightarrow> extracted
                          | Inr twohop \<Rightarrow> twohop)))))))"
proof -
  have "\<exists>r raw. transliterate_image alnum tr extracted target = Inr r \<and>
         transliterated_text r =
           (if d = py ''devanagari'' \<and> target = py ''latin''
            then schwa_delete_for_devanagari_to_latin alnum raw else raw) \<and>
         (engine_calls r, raw) = transliterate_with_fallback tr extracted f t"
    if ne: "extracted \<noteq> []" and d: "detect_script extracted = Inr d"
      and f: "f = dict_get SANSCRIPT_MAP d (py ''iast'')"
      and t: "t = dict_get SANSCRIPT_MAP target (py ''itrans'')"
  proof -
    define r where "r = (case transliterate_image alnum tr extracted target of Inr r \<Rightarrow> r)"
    have im: "transliterate_image alnum tr extracted target = Inr r"
      unfolding r_def using image_nonempty [OF ne d, of alnum tr target] by simp
    have "transliterated_text r =
           (if d = py ''devanagari'' \<and> target = py ''latin''
            then schwa_delete_for_devanagari_to_latin alnum
              (snd (transliterate_with_fallback tr extracted f t))
            else snd (transliterate_with_fallback tr extracted f t)) \<and>
          engine_calls r = fst (transliterate_with_fallback tr extracted f t)"
      unfolding r_def image_nonempty [OF ne d, of alnum tr target] f t by simp
    then have "transliterated_text r =
           (if d = py ''devanagari'' \<and> target = py ''latin''
            then schwa_delete_for_devanagari_to_latin alnum
              (snd (transliterate_with_fallback tr extracted f t))
            else snd (transliterate_with_fallback tr extracted f t)) \<and>
          (engine_calls r, snd (transliterate_with_fallback tr extracted f t)) =
             transliterate_with_fallback tr extracted f t"
      by simp
    with im show ?thesis by blast
  qed
  then show ?thesis
    using image_total [of alnum tr extracted target]
    unfolding fallback_cases [of tr extracted f t] by blast
qed

theorem transliteration_degrades_witness:
  "detect_script [0x0915] = Inr (py ''devanagari'') \<and>
   map_sum id (\<lambda>r. (engine_calls r, transliterated_text r))
     (transliterate_image (\<lambda>c. True) (\<lambda>txt f t. Inl ValueError) [0x0915] (py ''tamil'')) =
     Inr ([([0x0915], py ''devanagari'', py ''tamil''), ([0x0915], py ''devanagari'', py ''iast'')],
          [0x0915]) \<and>
   map_sum id (\<lambda>r. (engine_calls r, transliterated_text r))
     (transliterate_image (\<lambda>c. True)
        (\<lambda>txt f t. if f = py ''iast'' \<or> t = py ''iast'' then Inr (txt @ [0x21]) else Inl ValueError)
        [0x0915] (py ''tamil'')) =
     Inr ([([0x0915], py ''devanagari'', py ''tamil''), ([0x0915], py ''devanagari'', py ''iast''),
           ([0x0915, 0x21], py ''iast'', py ''tamil'')],
          [0x0915, 0x21, 0x21])"
proof -
  have ne: "py ''devanagari'' \<noteq> py ''tamil''" "py ''tamil'' \<noteq> py ''latin''"
    "py ''devanagari'' \<noteq> py ''iast''" "py ''tamil'' \<noteq> py ''iast''"
    by (simp_all add: py_eq_iff)
  from transliteration_degrades [of "\<lambda>c. True" "\<lambda>txt f t. Inl ValueError" "[0x0915]"
      "py ''tamil''" "py ''devanagari''" "py ''devanagari''" "py ''tamil''"]
    detect_ka scheme_dev scheme_tamil ne
  have a: "map_sum id (\<lambda>r. (engine_calls r, transliterated_text r))
     (transliterate_image (\<lambda>c. True) (\<lambda>txt f t. Inl ValueError) [0x0915] (py ''tamil'')) =
     Inr ([([0x0915], py ''devanagari'', py ''tamil''), ([0x0915], py ''devanagari'', py ''iast'')],
          [0x0915])"
    by auto
  from transliteration_degrades [of "\<lambda>c. True"
      "\<lambda>txt f t. if f = py ''iast'' \<or> t = py ''iast'' then Inr (txt @ [0x21]) else Inl ValueError"
      "[0x0915]" "py ''tamil''" "py ''devanagari''" "py ''devanagari''" "py ''tamil''"]
    detect_ka scheme_dev scheme_tamil ne
  have b: "map_sum id (\<lambda>r. (engine_calls r, transliterated_text r))
     (transliterate_image (\<lambda>c. True)
        (\<lambda>txt f t. if f = py ''iast'' \<or> t = py ''iast'' then Inr (txt @ [0x21]) else Inl ValueError)
        [0x0915] (py ''tamil'')) =
     Inr ([([0x0915], py ''devanagari'', py ''tamil''), ([0x0915], py ''devanagari'', py ''iast''),
           ([0x0915, 0x21], py ''iast'', py ''tamil'')],
          [0x0915, 0x21, 0x21])"
    by auto
  from a b detect_ka show ?thesis by simp
qed

text \<open>
  Claim C4 as stated fails for \<open>devanagari\<close> to \<open>latin\<close>: with an engine that always
  raises, the two letters \<open>U+0915\<close> separated by a line feed come back separated by a
  space, after both attempts have failed.
\<close>

theorem transliteration_degrades_counterexample:
  "detect_script [0x0915, 0x0A, 0x0915] = Inr (py ''devanagari'') \<and>
   map_sum id (\<lambda>r. (engine_calls r, transliterated_text r))
     (transliterate_image (\<lambda>c. True) (\<lambda>txt f t. Inl ValueError) [0x0915, 0x0A, 0x0915] (py ''latin'')) =
     Inr ([([0x0915, 0x0A, 0x0915], py ''devanagari'', py ''itrans''),
           ([0x0915, 0x0A, 0x0915], py ''devanagari'', py ''iast'')],
          [0x0915, 0x20, 0x0915])"
proof -
  have ne: "py ''devanagari'' \<noteq> py ''itrans''" by (simp add: py_eq_iff)
  have fb: "transliterate_with_fallback (\<lambda>txt f t. Inl ValueError) [0x0915, 0x0A, 0x0915]
      (py ''devanagari'') (py ''itrans'') =
      ([([0x0915, 0x0A, 0x0915], py ''devanagari'', py ''itrans''),
        ([0x0915, 0x0A, 0x0915], py ''devanagari'', py ''iast'')], [0x0915, 0x0A, 0x0915])"
    using ne by (simp add: fallback_cases)
  have sd: "schwa_delete_for_devanagari_to_latin (\<lambda>c. True) [0x0915, 0x0A, 0x0915] =
      [0x0915, 0x20, 0x0915]"
    by (simp add: schwa_delete_for_devanagari_to_latin_def is_space_def strip_def)
  have "[0x0915, 0x0A, 0x0915] \<noteq> ([] :: pystr)" by simp
  from image_nonempty [OF this detect_ka_nl_ka, of "\<lambda>c. True" "\<lambda>txt f t. Inl ValueError" "py ''latin''"]
  show ?thesis
    by (simp add: detect_ka_nl_ka scheme_dev scheme_latin fb sd)
qed

lemma schemes_differ_dev_latin:
  "dict_get SANSCRIPT_MAP (py ''devanagari'') (py ''iast'') \<noteq>
   dict_get SANSCRIPT_MAP (py ''latin'') (py ''itrans'')"
  by (simp add: dict_get_def SANSCRIPT_MAP_def py_eq_iff)

text \<open>
  Claim C5. When the source scheme and the target scheme are the same, the text comes back
  unchanged and the engine is not called; the reply of the handler carries the extracted
  text as the transliteration, since schwa deletion belongs to a pair of different schemes.
\<close>

theorem identity_short_circuit:
  "transliterate_with_fallback tr x scheme scheme = ([], x) \<and>
   (extracted \<noteq> [] \<and> detect_script extracted = Inr d \<and>
    dict_get SANSCRIPT_MAP d (py ''iast'') = dict_get SANSCRIPT_MAP target (py ''itrans'') \<longrightarrow>
      (\<exists>r. transliterate_image alnum tr extracted target = Inr r \<and>
           transliterated_text r = extracted \<and> engine_calls r = []))"
proof -
  have "\<exists>r. transliterate_image alnum tr extracted target = Inr r \<and>
           transliterated_text r = extracted \<and> engine_calls r = []"
    if ne: "extracted \<noteq> []" and d: "detect_script extracted = Inr d"
      and eq: "dict_get SANSCRIPT_MAP d (py ''iast'') = dict_get SANSCRIPT_MAP target (py ''itrans'')"
  proof -
    have nd: "\<not> (d = py ''devanagari'' \<and> target = py ''latin'')"
      using eq schemes_differ_dev_latin by auto
    define r where "r = (case transliterate_image alnum tr extracted target of Inr r \<Rightarrow> r)"
    have im: "transliterate_image alnum tr extracted target = Inr r"
      unfolding r_def using image_nonempty [OF ne d, of alnum tr target] by simp
    have "transliterated_text r = extracted \<and> engine_calls r = []"
      unfolding r_def image_nonempty [OF ne d, of alnum tr target] eq
      using nd by (auto simp: fallback_same)
    with im show ?thesis by blast
  qed
  then show ?thesis by (simp add: fallback_same)
qed

theorem identity_short_circuit_witness:
  "detect_script [0x61, 0x62] = Inr (py ''latin'') \<and>
   dict_get SANSCRIPT_MAP (py ''latin'') (py ''iast'') =
     dict_get SANSCRIPT_MAP (py ''english'') (py ''itrans'') \<and>
   map_sum id transliterated_text
     (transliterate_image (\<lambda>c. False) (\<lambda>txt f t. Inl ValueError) [0x61, 0x62] (py ''english''))
     = Inr [0x61, 0x62] \<and>
   map_sum id engine_calls
     (transliterate_image (\<lambda>c. False) (\<lambda>txt f t. Inl ValueError) [0x61, 0x62] (py ''english''))
     = Inr []"
proof -
  have s: "strip [0x61, 0x62] \<noteq> []" by (simp add: strip_def is_space_def)
  have c: "script_count (py ''devanagari'') [0x61, 0x62] = 0 \<and>
   script_count (py ''bengali'') [0x61, 0x62] = 0 \<and>
   script_count (py ''gurmukhi'') [0x61, 0x62] = 0 \<and>
   script_count (py ''gujarati'') [0x61, 0x62] = 0 \<and>
   script_count (py ''oriya'') [0x61, 0x62] = 0 \<and>
   script_count (py ''tamil'') [0x61, 0x62] = 0 \<and>
   script_count (py ''telugu'') [0x61, 0x62] = 0 \<and>
   script_count (py ''kannada'') [0x61, 0x62] = 0 \<and>
   script_count (py ''malayalam'') [0x61, 0x62] = 0 \<and>
   script_count (py ''latin'') [0x61, 0x62] = 2"
    by (simp add: script_count_def SCRIPT_RANGES_def py_eq_iff in_ranges_def)
  have h: "highest_count_script [0x61, 0x62] = Some (py ''latin'')"
    by (simp add: highest_count_script_def SCRIPT_RANGES_def c py_eq_iff)
  from detect_not_trivial [of "[0x61, 0x62]"] s h
  have d: "detect_script [0x61, 0x62] = Inr (py ''latin'')" by (simp add: c)
  have e: "dict_get SANSCRIPT_MAP (py ''latin'') (py ''iast'') =
     dict_get SANSCRIPT_MAP (py ''english'') (py ''itrans'')"
    by (simp add: dict_get_def SANSCRIPT_MAP_def py_eq_iff)
  from identity_short_circuit [of "\<lambda>txt f t. Inl ValueError" "[]" "[]" "[0x61, 0x62]"
      "py ''latin''" "py ''english''" "\<lambda>c. False"] d e
  obtain r where
    "transliterate_image (\<lambda>c. False) (\<lambda>txt f t. Inl ValueError) [0x61, 0x62] (py ''english'') = Inr r"
    "transliterated_text r = [0x61, 0x62]" "engine_calls r = []" by auto
  with d e show ?thesis by simp
qed

section \<open>Properties of the post-processing and of the spoken text\<close>

lemma counts_na:
  "script_count (py ''devanagari'') [0x0928] = 1 \<and>
   script_count (py ''bengali'') [0x0928] = 0 \<and>
   script_count (py ''gurmukhi'') [0x0928] = 0 \<and>
   script_count (py ''gujarati'') [0x0928] = 0 \<and>
   script_count (py ''oriya'') [0x0928] = 0 \<and>
   script_count (py ''tamil'') [0x0928] = 0 \<and>
   script_count (py ''telugu'') [0x0928] = 0 \<and>
   script_count (py ''kannada'') [0x0928] = 0 \<and>
   script_count (py ''malayalam'') [0x0928] = 0 \<and>
   script_count (py ''latin'') [0x0928] = 0"
  by (simp add: script_count_def SCRIPT_RANGES_def py_eq_iff in_ranges_def)

lemma detect_na: "detect_script [0x0928] = Inr (py ''devanagari'')"
proof -
  have s: "strip [0x0928] \<noteq> []" by (simp add: strip_def is_space_def)
  have h: "highest_count_script [0x0928] = Some (py ''devanagari'')"
    by (simp add: highest_count_script_def SCRIPT_RANGES_def counts_na py_eq_iff)
  from detect_not_trivial [of "[0x0928]"] s h show ?thesis by (simp add: counts_na)
qed



lemma collapse_from_Cons:
  "collapse_from p (c # cs) =
     (if is_space c \<and> (case p of None \<Rightarrow> False | Some q \<Rightarrow> is_space q)
      then collapse_from (Some c) cs
      else (if is_space c then 0x20 else c) # collapse_from (Some c) cs)"
  by (simp add: collapse_from_def)

lemma collapse_from_Nil: "collapse_from p [] = []"
  by (simp add: collapse_from_def)

lemma collapse_from_head:
  "s = [] \<or> \<not> is_space (hd s) \<Longrightarrow> collapse_from p s = collapse_from None s"
  by (cases s) (simp_all add: collapse_from_Cons collapse_from_Nil)

lemma collapse_from_skip:
  "is_space q \<Longrightarrow> is_space q' \<Longrightarrow>
   collapse_from (Some q) cs = collapse_from (Some q') (dropWhile is_space cs)"
proof (induction cs arbitrary: q)
  case Nil
  show ?case by (simp add: collapse_from_Nil)
next
  case (Cons c cs)
  show ?case
  proof (cases "is_space c")
    case True
    from Cons.IH [OF True Cons.prems(2)] show ?thesis
      using True Cons.prems by (simp add: collapse_from_Cons)
  next
    case False
    then show ?thesis using Cons.prems by (simp add: collapse_from_Cons)
  qed
qed

lemma sub_spaces_eq: "sub_spaces s = collapse_whitespace s"
proof -
  have "sub_spaces s = collapse_from None s"
  proof (induction s rule: sub_spaces.induct)
    case 1
    show ?case by (simp add: collapse_from_Nil)
  next
    case (2 c cs)
    show ?case
    proof (cases "is_space c")
      case True
      define r where "r = dropWhile is_space cs"
      have hd: "r = [] \<or> \<not> is_space (hd r)" unfolding r_def by (metis hd_dropWhile)
      have ih: "sub_spaces r = collapse_from None r" using 2(1) True by (simp add: r_def)
      have "collapse_from (Some c) cs = collapse_from (Some c) r"
        unfolding r_def by (rule collapse_from_skip [OF True True])
      also have "\<dots> = collapse_from None r" using hd by (rule collapse_from_head)
      finally have "collapse_from None (c # cs) = 0x20 # collapse_from None r"
        using True by (simp add: collapse_from_Cons)
      moreover have "sub_spaces (c # cs) = 0x20 # sub_spaces r"
        using True by (simp add: r_def)
      ultimately show ?thesis using ih by simp
    next
      case False
      have ih: "sub_spaces cs = collapse_from None cs" using 2(2) False by simp
      have e: "collapse_from (Some c) cs = collapse_from None cs"
        using False by (cases cs) (simp_all add: collapse_from_Cons collapse_from_Nil)
      show ?thesis using False ih e by (simp add: collapse_from_Cons)
    qed
  qed
  then show ?thesis by (simp add: collapse_whitespace_def)
qed

lemma schwa_sample_steps:
  "drop_word_final_a (\<lambda>c. False) (py ''rAma  ka nAma'') = py ''rAm  k nAm'' \<and>
   collapse_whitespace (py ''rAm  k nAm'') = py ''rAm k nAm''"
  by (simp add: drop_word_final_a_def successors_def collapse_whitespace_def collapse_from_def
      py_def is_word_def is_space_def)

text \<open>
  Claim C7. The handler applies schwa deletion exactly when the detected script is
  \<open>devanagari\<close> and the target is \<open>latin\<close>; for every other pair the text the
  transliteration step left is the answer. Schwa deletion drops every \<open>a\<close> that ends a
  word, then collapses each run of whitespace to one space (and strips the ends); the
  empty text stays empty.
\<close>

theorem schwa_deletion_fires:
  "(extracted \<noteq> [] \<and> detect_script extracted = Inr d \<longrightarrow>
      (\<exists>r. transliterate_image alnum tr extracted target = Inr r \<and>
        transliterated_text r =
          (if d = py ''devanagari'' \<and> target = py ''latin''
           then schwa_delete_for_devanagari_to_latin alnum
             (snd (transliterate_with_fallback tr extracted
                (dict_get SANSCRIPT_MAP d (py ''iast''))
                (dict_get SANSCRIPT_MAP target (py ''itrans''))))
           else snd (transliterate_with_fallback tr extracted
                (dict_get SANSCRIPT_MAP d (py ''iast''))
                (dict_get SANSCRIPT_MAP target (py ''itrans'')))))) \<and>
   schwa_delete_for_devanagari_to_latin alnum s =
     (if s = [] then [] else strip (collapse_whitespace (drop_word_final_a alnum s))) \<and>
   single_spaced (collapse_whitespace s) \<and>
   filter (\<lambda>c. \<not> is_space c) (collapse_whitespace s) = filter (\<lambda>c. \<not> is_space c) s"
proof -
  have a: "\<exists>r. transliterate_image alnum tr extracted target = Inr r \<and>
        transliterated_text r =
          (if d = py ''devanagari'' \<and> target = py ''latin''
           then schwa_delete_for_devanagari_to_latin alnum
             (snd (transliterate_with_fallback tr extracted
                (dict_get SANSCRIPT_MAP d (py ''iast''))
                (dict_get SANSCRIPT_MAP target (py ''itrans''))))
           else snd (transliterate_with_fallback tr extracted
                (dict_get SANSCRIPT_MAP d (py ''iast''))
                (dict_get SANSCRIPT_MAP target (py ''itrans''))))"
    if ne: "extracted \<noteq> []" and d: "detect_script extracted = Inr d"
    unfolding image_nonempty [OF ne d, of alnum tr target] by simp
  have b: "schwa_delete_for_devanagari_to_latin alnum s =
     (if s = [] then [] else strip (collapse_whitespace (drop_word_final_a alnum s)))"
    by (simp add: schwa_delete_for_devanagari_to_latin_def sub_a_boundary_eq sub_spaces_eq)
  from a b sub_spaces_single [of s] sub_spaces_keeps [of s] show ?thesis
    unfolding sub_spaces_eq by blast
qed

theorem schwa_deletion_fires_witness:
  "detect_script [0x0928] = Inr (py ''devanagari'') \<and>
   map_sum id transliterated_text
     (transliterate_image (\<lambda>c. False) (\<lambda>txt f t. Inr (py ''rAma  ka nAma'')) [0x0928] (py ''latin''))
     = Inr (py ''rAm k nAm'') \<and>
   map_sum id transliterated_text
     (transliterate_image (\<lambda>c. False) (\<lambda>txt f t. Inr (py ''rAma  ka nAma'')) [0x0928] (py ''tamil''))
     = Inr (py ''rAma  ka nAma'')"
proof -
  have nl: "py ''tamil'' \<noteq> py ''latin''" by (simp add: py_eq_iff)
  have f1: "transliterate_with_fallback (\<lambda>txt f t. Inr (py ''rAma  ka nAma'')) [0x0928]
      (dict_get SANSCRIPT_MAP (py ''devanagari'') (py ''iast''))
      (dict_get SANSCRIPT_MAP (py ''latin'') (py ''itrans'')) =
      ([([0x0928], py ''devanagari'', py ''itrans'')], py ''rAma  ka nAma'')"
    by (simp add: transliterate_with_fallback_def direct_attempt_def dict_get_def
        SANSCRIPT_MAP_def py_eq_iff)
  have f2: "transliterate_with_fallback (\<lambda>txt f t. Inr (py ''rAma  ka nAma'')) [0x0928]
      (dict_get SANSCRIPT_MAP (py ''devanagari'') (py ''iast''))
      (dict_get SANSCRIPT_MAP (py ''tamil'') (py ''itrans'')) =
      ([([0x0928], py ''devanagari'', py ''tamil'')], py ''rAma  ka nAma'')"
    by (simp add: transliterate_with_fallback_def direct_attempt_def dict_get_def
        SANSCRIPT_MAP_def py_eq_iff)
  have st: "strip (py ''rAm k nAm'') = py ''rAm k nAm''"
    by (simp add: strip_def py_def is_space_def)
  have n0: "py ''rAma  ka nAma'' \<noteq> []" by (simp add: py_def)
  from schwa_deletion_fires [of "[0x0928]" "py ''devanagari''" "\<lambda>c. False"
      "\<lambda>txt f t. Inr (py ''rAma  ka nAma'')" "py ''latin''" "py ''rAma  ka nAma''"] detect_na
  obtain r1 where r1:
    "transliterate_image (\<lambda>c. False) (\<lambda>txt f t. Inr (py ''rAma  ka nAma'')) [0x0928] (py ''latin'') = Inr r1"
    "transliterated_text r1 = py ''rAm k nAm''"
    unfolding f1 using n0 by (auto simp: schwa_sample_steps st)
  from schwa_deletion_fires [of "[0x0928]" "py ''devanagari''" "\<lambda>c. False"
      "\<lambda>txt f t. Inr (py ''rAma  ka nAma'')" "py ''tamil''" "[]"] detect_na
  obtain r2 where r2:
    "transliterate_image (\<lambda>c. False) (\<lambda>txt f t. Inr (py ''rAma  ka nAma'')) [0x0928] (py ''tamil'') = Inr r2"
    "transliterated_text r2 = py ''rAma  ka nAma''"
    unfolding f2 using nl by auto
  from r1 r2 detect_na show ?thesis by simp
qed

text \<open>
  Claim C9. For a request that reaches speech synthesis, the text spoken is the extracted
  text when the detected script is not \<open>latin\<close> and the transliterated text when it is.
  The detected script depends on the extracted text only, so for any other target (and
  engine) the same rule picks the text: the extracted text again when the script is not
  \<open>latin\<close>, the transliteration for that target otherwise.
\<close>

theorem spoken_text:
  assumes "transliterate_image alnum tr extracted target = Inr r"
    and "tts_request r = Some (spoken, lang)"
    and "transliterate_image alnum' tr' extracted target' = Inr r'"
  shows "detect_script extracted = Inr (detected_script r) \<and>
         spoken = (if detected_script r \<noteq> py ''latin'' then extracted else transliterated_text r) \<and>
         detected_script r' = detected_script r \<and>
         tts_request r' =
           (if detected_script r \<noteq> py ''latin'' then Some (extracted, langCode r')
            else if strip (transliterated_text r') \<noteq> []
              then Some (transliterated_text r', langCode r') else None)"
proof -
  have ne: "extracted \<noteq> []"
    using assms(1,2) by (auto simp: transliterate_image_def)
  from detect_total obtain d where d: "detect_script extracted = Inr d" by blast
  have st: "strip extracted \<noteq> []"
  proof
    assume e: "strip extracted = []"
    then have "detect_script extracted = Inr (py ''unknown'')" by (simp add: detect_script_def)
    with d have du: "d = py ''unknown''" by simp
    then have "d \<noteq> py ''latin''" by (simp add: py_eq_iff)
    with assms(1,2) e show False
      unfolding image_nonempty [OF ne d] by (auto simp: Let_def)
  qed
  have r: "detected_script r = d"
    using assms(1) unfolding image_nonempty [OF ne d] by auto
  have r': "detected_script r' = d"
    using assms(3) unfolding image_nonempty [OF ne d] by auto
  have sp: "spoken = (if d \<noteq> py ''latin'' then extracted else transliterated_text r)"
    using assms(1,2) unfolding image_nonempty [OF ne d]
    by (auto simp: Let_def split: if_splits)
  have o: "tts_request r' =
           (if d \<noteq> py ''latin'' then Some (extracted, langCode r')
            else if strip (transliterated_text r') \<noteq> []
              then Some (transliterated_text r', langCode r') else None)"
    using assms(3) st unfolding image_nonempty [OF ne d] by (auto simp: Let_def)
  from d r r' sp o show ?thesis by simp
qed

lemma counts_ab:
  "script_count (py ''devanagari'') [0x61, 0x62] = 0 \<and>
   script_count (py ''bengali'') [0x61, 0x62] = 0 \<and>
   script_count (py ''gurmukhi'') [0x61, 0x62] = 0 \<and>
   script_count (py ''gujarati'') [0x61, 0x62] = 0 \<and>
   script_count (py ''oriya'') [0x61, 0x62] = 0 \<and>
   script_count (py ''tamil'') [0x61, 0x62] = 0 \<and>
   script_count (py ''telugu'') [0x61, 0x62] = 0 \<and>
   script_count (py ''kannada'') [0x61, 0x62] = 0 \<and>
   script_count (py ''malayalam'') [0x61, 0x62] = 0 \<and>
   script_count (py ''latin'') [0x61, 0x62] = 2"
  by (simp add: script_count_def SCRIPT_RANGES_def py_eq_iff in_ranges_def)

lemma detect_ab: "detect_script [0x61, 0x62] = Inr (py ''latin'')"
proof -
  have s: "strip [0x61, 0x62] \<noteq> []" by (simp add: strip_def is_space_def)
  have h: "highest_count_script [0x61, 0x62] = Some (py ''latin'')"
    by (simp add: highest_count_script_def SCRIPT_RANGES_def counts_ab py_eq_iff)
  from detect_not_trivial [of "[0x61, 0x62]"] s h show ?thesis by (simp add: counts_ab)
qed

theorem spoken_text_witness:
  "map_sum id tts_request
     (transliterate_image (\<lambda>c. False) (\<lambda>txt f t. Inr [0x0B85]) [0x0928] (py ''latin'')) =
     Inr (Some ([0x0928], py ''hi'')) \<and>
   map_sum id tts_request
     (transliterate_image (\<lambda>c. False) (\<lambda>txt f t. Inr [0x0B85]) [0x0928] (py ''tamil'')) =
     Inr (Some ([0x0928], py ''hi'')) \<and>
   map_sum id (\<lambda>r. (transliterated_text r, tts_request r))
     (transliterate_image (\<lambda>c. False) (\<lambda>txt f t. Inr [0x0B85]) [0x61, 0x62] (py ''tamil'')) =
     Inr ([0x0B85], Some ([0x0B85], py ''en''))"
proof -
  let ?E = "\<lambda>(txt :: pystr) (f :: pystr) (t :: pystr). (Inr [0x0B85] :: exn + pystr)"
  have hi: "dict_get TTS_LANG_MAP (py ''devanagari'') x = py ''hi''" for x
    by (simp add: dict_get_def TTS_LANG_MAP_def py_eq_iff)
  have en: "dict_get TTS_LANG_MAP (py ''latin'') x = py ''en''" for x
    by (simp add: dict_get_def TTS_LANG_MAP_def py_eq_iff)
  have nl: "py ''devanagari'' \<noteq> py ''latin''" "py ''tamil'' \<noteq> py ''latin''"
    by (simp_all add: py_eq_iff)
  have s1: "strip [0x0928] \<noteq> []" "strip [0x0B85] \<noteq> []" by (simp_all add: strip_def is_space_def)
  have n1: "[0x0928] \<noteq> ([] :: pystr)" "[0x61, 0x62] \<noteq> ([] :: pystr)" by simp_all
  have fb: "transliterate_with_fallback ?E [0x61, 0x62]
      (dict_get SANSCRIPT_MAP (py ''latin'') (py ''iast''))
      (dict_get SANSCRIPT_MAP (py ''tamil'') (py ''itrans'')) =
      ([([0x61, 0x62], py ''itrans'', py ''tamil'')], [0x0B85])"
    by (simp add: transliterate_with_fallback_def direct_attempt_def dict_get_def
        SANSCRIPT_MAP_def py_eq_iff)
  define r1 where "r1 = (case transliterate_image (\<lambda>c. False) ?E [0x0928] (py ''latin'') of Inr r \<Rightarrow> r)"
  have a1: "transliterate_image (\<lambda>c. False) ?E [0x0928] (py ''latin'') = Inr r1"
    unfolding r1_def image_nonempty [OF n1(1) detect_na] by simp
  have t1: "tts_request r1 = Some ([0x0928], py ''hi'')"
    unfolding r1_def image_nonempty [OF n1(1) detect_na] using nl s1 by (simp add: hi)
  define r3 where "r3 = (case transliterate_image (\<lambda>c. False) ?E [0x61, 0x62] (py ''tamil'') of Inr r \<Rightarrow> r)"
  have a3: "transliterate_image (\<lambda>c. False) ?E [0x61, 0x62] (py ''tamil'') = Inr r3"
    unfolding r3_def image_nonempty [OF n1(2) detect_ab] by simp
  have t3: "transliterated_text r3 = [0x0B85] \<and> tts_request r3 = Some ([0x0B85], py ''en'')"
    unfolding r3_def image_nonempty [OF n1(2) detect_ab] using nl s1 by (simp add: en fb)
  from image_total obtain r2 where
    a2: "transliterate_image (\<lambda>c. False) ?E [0x0928] (py ''tamil'') = Inr r2" by blast
  have l2: "langCode r2 = py ''hi''"
    using a2 unfolding image_nonempty [OF n1(1) detect_na] by (auto simp: hi)
  from spoken_text [OF a1 t1 a2] a1 detect_na nl
  have t2: "tts_request r2 = Some ([0x0928], py ''hi'')" by (simp add: l2)
  from a1 t1 a2 t2 a3 t3 show ?thesis by simp
qed

section \<open>Properties of the decimal numerals\<close>

lemma of_char_digit: "d < 10 \<Longrightarrow> (of_char (digit_char d) :: nat) = 48 + d"
  by (simp add: digit_char_def)




lemma int_of_digits_snoc: "int_of_digits (s @ [c]) = 10 * int_of_digits s + (of_char c - 48)"
  by (simp add: int_of_digits_def)

lemma int_of_digits_str_nat: "int_of_digits (str_nat n) = n"
proof (induction n rule: str_nat.induct)
  case (1 n)
  show ?case
  proof (cases "n < 10")
    case True
    then show ?thesis by (simp add: str_nat.simps [of n] int_of_digits_def of_char_digit)
  next
    case False
    then have "int_of_digits (str_nat (n div 10)) = n div 10" using 1 by simp
    then show ?thesis using False
      by (simp add: str_nat.simps [of n] int_of_digits_snoc of_char_digit)
  qed
qed

lemma str_nat_inj: "str_nat m = str_nat n \<Longrightarrow> m = n"
  by (metis int_of_digits_str_nat)

lemma digit_char_eq: "d < 10 \<Longrightarrow> (of_char c :: nat) = 48 + d \<Longrightarrow> digit_char d = c"
proof -
  assume "d < 10" and "(of_char c :: nat) = 48 + d"
  then have "(of_char (digit_char d) :: nat) = of_char c" by (simp add: of_char_digit)
  then show ?thesis by (simp only: of_char_eq_iff)
qed

lemma digit_chars:
  "digit_char 0 = CHR ''0'' \<and> digit_char (Suc 0) = CHR ''1'' \<and> digit_char 2 = CHR ''2'' \<and>
   digit_char 3 = CHR ''3'' \<and> digit_char 5 = CHR ''5'' \<and> digit_char 9 = CHR ''9''"
  by (intro conjI digit_char_eq) simp_all

lemma str_nat_small:
  "str_nat 0 = ''0'' \<and> str_nat (Suc 0) = ''1'' \<and> str_nat 2 = ''2'' \<and> str_nat 3 = ''3'' \<and>
   str_nat 5 = ''5'' \<and> str_nat 9 = ''9'' \<and> str_nat 10 = ''10''"
proof -
  have a: "str_nat 0 = ''0''" "str_nat (Suc 0) = ''1''" "str_nat 2 = ''2''" "str_nat 3 = ''3''"
    "str_nat 5 = ''5''" "str_nat 9 = ''9''"
    by (simp_all add: str_nat.simps [of 5] str_nat.simps [of 0] str_nat.simps [of "Suc 0"] str_nat.simps [of 2]
        str_nat.simps [of 3] str_nat.simps [of 9] digit_chars)
  have "str_nat 10 = str_nat (Suc 0) @ [digit_char 0]"
    by (subst str_nat.simps) simp
  with a show ?thesis by (simp add: digit_chars)
qed

section \<open>Properties of the range server\<close>












section \<open>Properties of the chunked fallback\<close>

lemma remove_files_apply:
  "remove_files files tfs n = (if n \<in> set tfs then None else files n)"
  by (induction tfs arbitrary: files) auto

lemma tmp_name_inj: "tmp_name out_path i = tmp_name out_path j \<longleftrightarrow> i = j"
proof
  assume "tmp_name out_path i = tmp_name out_path j"
  then have "py (str_nat i) = py (str_nat j)" by (simp add: tmp_name_def)
  then have "str_nat i = str_nat j" by (simp only: py_eq_iff)
  then show "i = j" by (rule str_nat_inj)
qed simp

lemma tmp_name_not_out: "tmp_name out_path i \<noteq> out_path"
  by (simp add: tmp_name_def py_def)

lemma item_names_Nil: "item_names out_path [] = []"
  by (simp add: item_names_def map_filter_simps)

lemma item_names_Cons:
  "item_names out_path ((i, p) # items) =
     (if strip p = [] then item_names out_path items
      else tmp_name out_path i # item_names out_path items)"
  by (simp add: item_names_def map_filter_simps)

lemma item_audio_Nil: "item_audio synthesize lang out_path [] = []"
  by (simp add: item_audio_def map_filter_simps)

lemma item_audio_Cons:
  "item_audio synthesize lang out_path ((i, p) # items) =
     (if strip p = [] then item_audio synthesize lang out_path items
      else (case synthesize (strip p) lang (tmp_name out_path i) of
              Inr audio \<Rightarrow> audio # item_audio synthesize lang out_path items
            | Inl e \<Rightarrow> item_audio synthesize lang out_path items))"
  by (simp add: item_audio_def map_filter_simps split: sum.splits)

lemma item_names_set:
  "n \<in> set (item_names out_path items) \<Longrightarrow> \<exists>i p. (i, p) \<in> set items \<and> n = tmp_name out_path i"
proof (induction items)
  case Nil
  then show ?case by (simp add: item_names_Nil)
next
  case (Cons item items)
  obtain i p where item: "item = (i, p)" by (cases item)
  from Cons show ?case unfolding item by (auto simp: item_names_Cons split: if_splits)
qed

lemma item_names_fresh:
  "i \<notin> fst ` set items \<Longrightarrow> tmp_name out_path i \<notin> set (item_names out_path items)"
  using item_names_set [of "tmp_name out_path i" out_path items]
  by (force simp: tmp_name_inj)

lemma out_not_item_name: "out_path \<notin> set (item_names out_path items)"
  using item_names_set [of out_path out_path items] tmp_name_not_out [of out_path]
  by metis

lemma save_loop_ok:
  assumes "\<forall>(i, p)\<in>set items. strip p \<noteq> [] \<longrightarrow>
             (\<exists>a. synthesize (strip p) lang (tmp_name out_path i) = Inr a)"
    and "distinct (map fst items)"
  shows "\<exists>files'. save_loop synthesize lang out_path items temp_files files =
            (Some (temp_files @ item_names out_path items), files') \<and>
          (\<forall>n. n \<notin> set (item_names out_path items) \<longrightarrow> files' n = files n) \<and>
          map files' (item_names out_path items) =
            map Some (item_audio synthesize lang out_path items)"
  using assms
proof (induction items arbitrary: temp_files files)
  case Nil
  show ?case by (simp add: item_names_Nil item_audio_Nil)
next
  case (Cons item items)
  obtain i p where item: "item = (i, p)" by (cases item)
  have ok: "\<forall>(i, p)\<in>set items. strip p \<noteq> [] \<longrightarrow>
             (\<exists>a. synthesize (strip p) lang (tmp_name out_path i) = Inr a)"
    using Cons.prems(1) by simp
  have d: "distinct (map fst items)" and fresh: "i \<notin> fst ` set items"
    using Cons.prems(2) by (simp_all add: item)
  show ?case
  proof (cases "strip p = []")
    case True
    from Cons.IH [OF ok d, of temp_files files] show ?thesis
      unfolding item by (simp add: True item_names_Cons item_audio_Cons)
  next
    case False
    with Cons.prems(1) obtain a where a: "synthesize (strip p) lang (tmp_name out_path i) = Inr a"
      unfolding item by auto
    define files1 where "files1 = files(tmp_name out_path i \<mapsto> a)"
    from Cons.IH [OF ok d, of "temp_files @ [tmp_name out_path i]" files1]
    obtain files' where
      s: "save_loop synthesize lang out_path items (temp_files @ [tmp_name out_path i]) files1 =
            (Some ((temp_files @ [tmp_name out_path i]) @ item_names out_path items), files')"
      and same: "\<forall>n. n \<notin> set (item_names out_path items) \<longrightarrow> files' n = files1 n"
      and cont: "map files' (item_names out_path items) =
            map Some (item_audio synthesize lang out_path items)"
      by blast
    have nf: "tmp_name out_path i \<notin> set (item_names out_path items)"
      using fresh by (rule item_names_fresh)
    have here: "files' (tmp_name out_path i) = Some a"
      using same nf by (simp add: files1_def)
    have sl: "save_loop synthesize lang out_path ((i, p) # items) temp_files files =
        (Some (temp_files @ item_names out_path ((i, p) # items)), files')"
      using False a s by (simp add: tts_save_def files1_def item_names_Cons)
    have same': "\<forall>n. n \<notin> set (item_names out_path ((i, p) # items)) \<longrightarrow> files' n = files n"
      using same False by (simp add: item_names_Cons files1_def)
    have cont': "map files' (item_names out_path ((i, p) # items)) =
        map Some (item_audio synthesize lang out_path ((i, p) # items))"
      using False a cont here by (simp add: item_names_Cons item_audio_Cons)
    from sl same' cont' show ?thesis unfolding item by blast
  qed
qed

lemma merge_loop_ok:
  "map files tfs = map Some audios \<Longrightarrow>
   merge_loop files written tfs = (written @ concat audios, None)"
proof (induction tfs arbitrary: written audios)
  case Nil
  then show ?case by simp
next
  case (Cons tf tfs)
  then obtain a rest where au: "audios = a # rest" by (cases audios) simp_all
  with Cons.prems have h: "files tf = Some a" and r: "map files tfs = map Some rest" by simp_all
  from Cons.IH [OF r, of "written @ a"] h show ?case by (simp add: au)
qed


lemma enumerate_fst: "map fst (enumerate xs) = [0..<length xs]"
  by (simp add: enumerate_def)



lemma chunks_all_ok:
  assumes "\<forall>(i, p)\<in>set (enumerate pieces). strip p \<noteq> [] \<longrightarrow>
             (\<exists>a. synthesize (strip p) lang (tmp_name out_path i) = Inr a)"
  shows "\<exists>files1. save_loop synthesize lang out_path (enumerate pieces) [] files =
            (Some (chunk_names out_path pieces), files1) \<and>
          merge_loop (files1(out_path \<mapsto> [])) [] (chunk_names out_path pieces) =
            (concat (chunk_audio synthesize lang out_path pieces), None) \<and>
          remove_files (files1(out_path \<mapsto> concat (chunk_audio synthesize lang out_path pieces)))
             (chunk_names out_path pieces) =
            (\<lambda>n. if n = out_path
                  then Some (concat (chunk_audio synthesize lang out_path pieces))
                  else if n \<in> set (chunk_names out_path pieces) then None else files n)"
proof -
  have d: "distinct (map fst (enumerate pieces))" by (simp add: enumerate_fst)
  from save_loop_ok [where items = "enumerate pieces" and synthesize = synthesize and lang = lang
      and out_path = out_path and temp_files = "[]" and files = files] assms d
  obtain files1 where
    s: "save_loop synthesize lang out_path (enumerate pieces) [] files =
          (Some (chunk_names out_path pieces), files1)"
    and same: "\<forall>n. n \<notin> set (chunk_names out_path pieces) \<longrightarrow> files1 n = files n"
    and cont: "map files1 (chunk_names out_path pieces) =
          map Some (chunk_audio synthesize lang out_path pieces)"
    unfolding chunk_names_def chunk_audio_def by auto
  have no: "out_path \<notin> set (chunk_names out_path pieces)"
    unfolding chunk_names_def by (rule out_not_item_name)
  have "map (files1(out_path \<mapsto> [])) (chunk_names out_path pieces) =
      map Some (chunk_audio synthesize lang out_path pieces)"
    using no cont by (simp add: map_fun_upd)
  from merge_loop_ok [OF this, of "[]"]
  have m: "merge_loop (files1(out_path \<mapsto> [])) [] (chunk_names out_path pieces) =
            (concat (chunk_audio synthesize lang out_path pieces), None)" by simp
  have r: "remove_files (files1(out_path \<mapsto> concat (chunk_audio synthesize lang out_path pieces)))
             (chunk_names out_path pieces) =
            (\<lambda>n. if n = out_path
                  then Some (concat (chunk_audio synthesize lang out_path pieces))
                  else if n \<in> set (chunk_names out_path pieces) then None else files n)"
    using no same by (intro ext) (auto simp: remove_files_apply)
  from s m r show ?thesis by blast
qed

text \<open>
  Claim C2. When the call of every chunk that is not empty succeeds, the chunked attempt
  answers \<open>True\<close>; the output file then holds the audio of the chunks, concatenated in
  the order of the pieces, so its length is the sum of their lengths; every temporary file
  of a chunk is removed, and every other name of the folder keeps its content.
\<close>

theorem chunks_concatenated:
  assumes "\<forall>(i, p)\<in>set (enumerate (split_pieces text)). strip p \<noteq> [] \<longrightarrow>
             (\<exists>a. synthesize (strip p) lang (tmp_name out_path i) = Inr a)"
  shows "\<exists>final. safe_tts_save_chunks synthesize text lang out_path files =
           (True, \<lambda>n. if n = out_path then Some final
                      else if n \<in> set (chunk_names out_path (split_pieces text)) then None
                      else files n) \<and>
         final = concat (chunk_audio synthesize lang out_path (split_pieces text)) \<and>
         length final =
           sum_list (map length (chunk_audio synthesize lang out_path (split_pieces text)))"
proof -
  from chunks_all_ok [where pieces = "split_pieces text" and synthesize = synthesize and lang = lang
      and out_path = out_path and files = files] assms
  obtain files1 where
    s: "save_loop synthesize lang out_path (enumerate (split_pieces text)) [] files =
            (Some (chunk_names out_path (split_pieces text)), files1)"
    and m: "merge_loop (files1(out_path \<mapsto> [])) [] (chunk_names out_path (split_pieces text)) =
            (concat (chunk_audio synthesize lang out_path (split_pieces text)), None)"
    and r: "remove_files
             (files1(out_path \<mapsto> concat (chunk_audio synthesize lang out_path (split_pieces text))))
             (chunk_names out_path (split_pieces text)) =
            (\<lambda>n. if n = out_path
                  then Some (concat (chunk_audio synthesize lang out_path (split_pieces text)))
                  else if n \<in> set (chunk_names out_path (split_pieces text)) then None
                  else files n)"
    by blast
  have "safe_tts_save_chunks synthesize text lang out_path files =
           (True, \<lambda>n. if n = out_path
                  then Some (concat (chunk_audio synthesize lang out_path (split_pieces text)))
                  else if n \<in> set (chunk_names out_path (split_pieces text)) then None
                  else files n)"
    unfolding safe_tts_save_chunks_def s using m r by simp
  then show ?thesis by (simp add: length_concat)
qed



lemma pieces_sample: "split_pieces (py ''ab. c'') = [py ''ab.'', py ''c'']"
  by (simp add: split_pieces_def Let_def py_def is_space_def is_terminator_def)

lemma strip_sample: "strip (py ''ab.'') = py ''ab.'' \<and> strip (py ''c'') = py ''c''"
  by (simp add: strip_def py_def is_space_def)

lemma enumerate_two: "enumerate [x, y] = [(0, x), (Suc 0, y)]"
  by (simp add: enumerate_def upt_rec)

lemma tmp_names_sample:
  "tmp_name (py ''o'') 0 = py ''o.0.mp3'' \<and> tmp_name (py ''o'') (Suc 0) = py ''o.1.mp3''"
  by (simp add: tmp_name_def str_nat_small py_def)

lemma names_sample:
  "chunk_names (py ''o'') [py ''ab.'', py ''c''] = [py ''o.0.mp3'', py ''o.1.mp3'']"
proof -
  have n: "py ''ab.'' \<noteq> []" "py ''c'' \<noteq> []" by (simp_all add: py_def)
  show ?thesis
    using n by (simp add: chunk_names_def enumerate_two item_names_Cons item_names_Nil
        strip_sample tmp_names_sample)
qed

theorem chunks_concatenated_witness:
  "split_pieces (py ''ab. c'') = [py ''ab.'', py ''c''] \<and>
   fst (safe_tts_save_chunks (\<lambda>t l n. Inr [of_nat (length t)]) (py ''ab. c'') (py ''en'') (py ''o'')
          Map.empty) = True \<and>
   snd (safe_tts_save_chunks (\<lambda>t l n. Inr [of_nat (length t)]) (py ''ab. c'') (py ''en'') (py ''o'')
          Map.empty) (py ''o'') = Some [3, 1] \<and>
   snd (safe_tts_save_chunks (\<lambda>t l n. Inr [of_nat (length t)]) (py ''ab. c'') (py ''en'') (py ''o'')
          Map.empty) (py ''o.0.mp3'') = None \<and>
   snd (safe_tts_save_chunks (\<lambda>t l n. Inr [of_nat (length t)]) (py ''ab. c'') (py ''en'') (py ''o'')
          Map.empty) (py ''o.1.mp3'') = None"
proof -
  let ?S = "(\<lambda>t l n. Inr [of_nat (length t)]) :: synth"
  have n: "py ''ab.'' \<noteq> []" "py ''c'' \<noteq> []" by (simp_all add: py_def)
  have l: "length (py ''ab.'') = 3" "length (py ''c'') = 1" by (simp_all add: py_def)
  have au: "chunk_audio ?S (py ''en'') (py ''o'') [py ''ab.'', py ''c''] = [[3], [1]]"
    using n by (simp add: chunk_audio_def enumerate_two item_audio_Cons item_audio_Nil
        strip_sample l)
  have ne: "py ''o.0.mp3'' \<noteq> py ''o''" "py ''o.1.mp3'' \<noteq> py ''o''" by (simp_all add: py_eq_iff)
  have h: "\<forall>(i, p)\<in>set (enumerate (split_pieces (py ''ab. c''))). strip p \<noteq> [] \<longrightarrow>
             (\<exists>a. ?S (strip p) (py ''en'') (tmp_name (py ''o'') i) = Inr a)"
    by simp
  from chunks_concatenated [where synthesize = ?S and lang = "py ''en''" and out_path = "py ''o''"
      and files = Map.empty, OF h]
  have "safe_tts_save_chunks ?S (py ''ab. c'') (py ''en'') (py ''o'') Map.empty =
      (True, \<lambda>n. if n = py ''o'' then Some [3, 1]
                  else if n \<in> set [py ''o.0.mp3'', py ''o.1.mp3''] then None else None)"
    unfolding pieces_sample au names_sample by simp
  then show ?thesis using ne by (simp add: pieces_sample)
qed


end
